theory Spec2Isabelle
  imports Main "HOL-Library.List_Lexorder" "HOL-Library.Multiset" "HOL-Library.Code_Target_Nat"
begin

section \<open>Text\<close>

text \<open>
  A Python \<open>str\<close> is a sequence of Unicode code points. A code point is a natural number
  and a text is a list of them; an ASCII literal of the source is written \<open>lit ''...''\<close>.
  Lists of code points are ordered lexicographically (\<open>List_Lexorder\<close>), which is the
  order Python's \<open>sorted\<close> uses on strings.
\<close>

type_synonym codepoint = nat
type_synonym pystr = "codepoint list"

definition lit :: "string \<Rightarrow> pystr" where
  "lit s = map of_char s"

text \<open>
  \<open>\w\<close> of a Python 3 \<open>str\<close> pattern: the ASCII letters, digits and the underscore,
  and beyond ASCII every code point that the Unicode database classes as alphanumeric.
  That table belongs to the Python runtime, so it is the parameter \<open>ua\<close>.
\<close>

definition is_word :: "(codepoint \<Rightarrow> bool) \<Rightarrow> codepoint \<Rightarrow> bool" where
  "is_word ua c =
     (if c < 128
      then (48 \<le> c \<and> c \<le> 57) \<or> (65 \<le> c \<and> c \<le> 90) \<or> (97 \<le> c \<and> c \<le> 122) \<or> c = 95
      else ua c)"

text \<open>A table for witnesses on ASCII input: no code point beyond ASCII is alphanumeric.\<close>

definition ascii_only :: "codepoint \<Rightarrow> bool" where
  "ascii_only c = False"

text \<open>\<open>str.join\<close>.\<close>

fun join :: "pystr \<Rightarrow> pystr list \<Rightarrow> pystr" where
  "join sep [] = []"
| "join sep [x] = x"
| "join sep (x # y # ys) = x @ sep @ join sep (y # ys)"

section \<open>The regular-expression operations the program uses\<close>

text \<open>
  The exceptions of the program: a replacement template that \<open>re\<close> rejects, a text that
  \<open>json.loads\<close> rejects, and the \<open>IndexError\<close> of a list access in \<open>main\<close>. The
  handlers of \<open>DataManager\<close> catch every exception alike and report it.
\<close>

datatype exn = BadTemplate | JSONDecodeError | IndexError

text \<open>A literal of a pattern, matched at the head of the text: the text after it.\<close>

fun strip_prefix :: "pystr \<Rightarrow> pystr \<Rightarrow> pystr option" where
  "strip_prefix [] s = Some s"
| "strip_prefix (p # ps) [] = None"
| "strip_prefix (p # ps) (c # cs) = (if p = c then strip_prefix ps cs else None)"

text \<open>
  \<open>[\s\S]*?\<close> followed by a literal: the shortest run of arbitrary characters up to the
  first occurrence of the literal. The result is the run and the text after the literal.
\<close>

fun find_lit :: "pystr \<Rightarrow> pystr \<Rightarrow> (pystr \<times> pystr) option" where
  "find_lit p [] = map_option (\<lambda>r. ([], r)) (strip_prefix p [])"
| "find_lit p (c # cs) =
     (case strip_prefix p (c # cs) of
        Some r \<Rightarrow> Some ([], r)
      | None \<Rightarrow> map_option (\<lambda>(b, r). (c # b, r)) (find_lit p cs))"

text \<open>
  An anchored matcher tries its pattern at the head of a text and returns what the caller
  needs of the match (the whole match or a group) with the text after the match.
  \<open>re.search\<close>, \<open>re.findall\<close> and \<open>re.sub\<close> try the matcher at each position from
  the left; after a match they go on behind it (behind the next character when the match
  was empty). \<open>re_search\<close> returns the first match with the text before it and the text
  after it, as the match object of Python does with its \<open>start()\<close> and \<open>end()\<close>.
\<close>

type_synonym 'a matcher = "pystr \<Rightarrow> ('a \<times> pystr) option"

fun re_search :: "'a matcher \<Rightarrow> pystr \<Rightarrow> (pystr \<times> 'a \<times> pystr) option" where
  "re_search m [] = map_option (\<lambda>(x, r). ([], x, r)) (m [])"
| "re_search m (c # cs) =
     (case m (c # cs) of
        Some (x, r) \<Rightarrow> Some ([], x, r)
      | None \<Rightarrow> map_option (\<lambda>(b, x, r). (c # b, x, r)) (re_search m cs))"

function re_findall :: "'a matcher \<Rightarrow> pystr \<Rightarrow> 'a list" where
  "re_findall m [] = (case m [] of Some (x, r) \<Rightarrow> [x] | None \<Rightarrow> [])"
| "re_findall m (c # cs) =
     (case m (c # cs) of
        None \<Rightarrow> re_findall m cs
      | Some (x, r) \<Rightarrow>
          if length r < Suc (length cs) then x # re_findall m r else x # re_findall m cs)"
  by pat_completeness auto
termination
  by (relation "measure (\<lambda>(m, s). length s)") auto

function re_sub :: "'a matcher \<Rightarrow> ('a \<Rightarrow> pystr) \<Rightarrow> pystr \<Rightarrow> pystr" where
  "re_sub m repl [] = (case m [] of Some (x, r) \<Rightarrow> repl x | None \<Rightarrow> [])"
| "re_sub m repl (c # cs) =
     (case m (c # cs) of
        None \<Rightarrow> c # re_sub m repl cs
      | Some (x, r) \<Rightarrow>
          if length r < Suc (length cs) then repl x @ re_sub m repl r
          else repl x @ c # re_sub m repl cs)"
  by pat_completeness auto
termination
  by (relation "measure (\<lambda>(m, repl, s). length s)") auto

subsection \<open>Replacement templates\<close>

text \<open>
  A string given to \<open>re.sub\<close> as the replacement is a template: \<open>re\<close> parses its
  backslash escapes before it looks for a match, and a malformed template raises. The two
  patterns that receive a computed template have no capture group, so the only group a
  template can name is group 0, the whole match.
\<close>

datatype titem = TLit codepoint | TWhole

definition is_digit :: "codepoint \<Rightarrow> bool" where
  "is_digit c = (48 \<le> c \<and> c \<le> 57)"

definition is_octdigit :: "codepoint \<Rightarrow> bool" where
  "is_octdigit c = (48 \<le> c \<and> c \<le> 55)"

definition is_ascii_letter :: "codepoint \<Rightarrow> bool" where
  "is_ascii_letter c = ((65 \<le> c \<and> c \<le> 90) \<or> (97 \<le> c \<and> c \<le> 122))"

text \<open>
  The group name of \<open>\g<name>\<close>, read up to the closing bracket: the name and the text
  after the bracket. As of Python 3.12 a numeric name is a run of ASCII digits; with no
  group in the pattern only the value 0 is a valid reference, and any other name raises
  (\<open>re.error\<close> or \<open>IndexError\<close>, which the handlers do not tell apart).
\<close>

fun read_name :: "pystr \<Rightarrow> (pystr \<times> pystr) option" where
  "read_name [] = None"
| "read_name (c # cs) =
     (if c = 62 then Some ([], cs)
      else map_option (\<lambda>(n, r). (c # n, r)) (read_name cs))"

lemma read_name_length: "read_name s = Some (n, r) \<Longrightarrow> length r < length s"
  by (induction s arbitrary: n r) (auto split: if_splits)

function parse_template :: "pystr \<Rightarrow> exn + titem list" where
  "parse_template [] = Inr []"
| "parse_template (c # cs) =
     (if c \<noteq> 92 then map_sum id (Cons (TLit c)) (parse_template cs)
      else case cs of
        [] \<Rightarrow> Inl BadTemplate
      | e # es \<Rightarrow>
          if e = 103 then
            (case es of
               [] \<Rightarrow> Inl BadTemplate
             | b # bs \<Rightarrow>
                 if b \<noteq> 60 then Inl BadTemplate
                 else case read_name bs of
                   None \<Rightarrow> Inl BadTemplate
                 | Some (n, r) \<Rightarrow>
                     if n \<noteq> [] \<and> list_all (\<lambda>d. d = 48) n
                     then map_sum id (Cons TWhole) (parse_template r)
                     else Inl BadTemplate)
          else if e = 48 then
            (case es of
               d1 # d2 # r \<Rightarrow>
                 if is_octdigit d1 \<and> is_octdigit d2
                 then map_sum id (Cons (TLit (((d1 - 48) * 8 + (d2 - 48)) mod 256)))
                        (parse_template r)
                 else if is_octdigit d1
                 then map_sum id (Cons (TLit (d1 - 48))) (parse_template (d2 # r))
                 else map_sum id (Cons (TLit 0)) (parse_template es)
             | [d1] \<Rightarrow>
                 if is_octdigit d1 then Inr [TLit (d1 - 48)]
                 else map_sum id (Cons (TLit 0)) (parse_template es)
             | [] \<Rightarrow> Inr [TLit 0])
          else if is_digit e then
            (case es of
               d2 # d3 # r \<Rightarrow>
                 if is_octdigit e \<and> is_octdigit d2 \<and> is_octdigit d3 then
                   (if ((e - 48) * 8 + (d2 - 48)) * 8 + (d3 - 48) > 255 then Inl BadTemplate
                    else map_sum id (Cons (TLit (((e - 48) * 8 + (d2 - 48)) * 8 + (d3 - 48))))
                           (parse_template r))
                 else Inl BadTemplate
             | _ \<Rightarrow> Inl BadTemplate)
          else if e = 97 then map_sum id (Cons (TLit 7)) (parse_template es)
          else if e = 98 then map_sum id (Cons (TLit 8)) (parse_template es)
          else if e = 102 then map_sum id (Cons (TLit 12)) (parse_template es)
          else if e = 110 then map_sum id (Cons (TLit 10)) (parse_template es)
          else if e = 114 then map_sum id (Cons (TLit 13)) (parse_template es)
          else if e = 116 then map_sum id (Cons (TLit 9)) (parse_template es)
          else if e = 118 then map_sum id (Cons (TLit 11)) (parse_template es)
          else if e = 92 then map_sum id (Cons (TLit 92)) (parse_template es)
          else if is_ascii_letter e then Inl BadTemplate
          else map_sum id (\<lambda>t. TLit 92 # TLit e # t) (parse_template es))"
  by pat_completeness auto
termination
  by (relation "measure length") (auto dest: read_name_length)

text \<open>The text a parsed template stands for at a match \<open>w\<close>.\<close>

fun expand :: "titem list \<Rightarrow> pystr \<Rightarrow> pystr" where
  "expand [] w = []"
| "expand (TLit c # t) w = c # expand t w"
| "expand (TWhole # t) w = w @ expand t w"

section \<open>Regions\<close>

subsection \<open>\<open>DataManager.extract_regions\<close>\<close>

definition OPT_OPEN :: pystr where
  \<open>OPT_OPEN = lit ''<option value="''\<close>

definition QUOTE_GT :: pystr where
  \<open>QUOTE_GT = lit ''">''\<close>

definition OPT_CLOSE :: pystr where
  \<open>OPT_CLOSE = lit ''</option>''\<close>

text \<open>
  The pattern \<^verbatim>\<open><option value="(\w+)">\1</option>\<close> at the head of a text: group 1 and the
  text after the match. \<open>\w+\<close> is greedy and the next pattern character is a double
  quote, which is no word character, so group 1 can only be the whole run of word
  characters at that place; the back-reference then asks for the same text again.
\<close>

definition match_option :: "(codepoint \<Rightarrow> bool) \<Rightarrow> pystr matcher" where
  "match_option ua s =
     (case strip_prefix OPT_OPEN s of
        None \<Rightarrow> None
      | Some r \<Rightarrow>
          let x = takeWhile (is_word ua) r in
          if x = [] then None
          else case strip_prefix QUOTE_GT (dropWhile (is_word ua) r) of
            None \<Rightarrow> None
          | Some r2 \<Rightarrow>
              (case strip_prefix x r2 of
                 None \<Rightarrow> None
               | Some r3 \<Rightarrow>
                   (case strip_prefix OPT_CLOSE r3 of
                      None \<Rightarrow> None
                    | Some r4 \<Rightarrow> Some (x, r4))))"

text \<open>
  \<open>re.findall\<close> on a \<open>str\<close> cannot raise, so the handler of the source is dead code and
  the function is pure. The comprehension drops empty matches.
\<close>

definition extract_regions :: "(codepoint \<Rightarrow> bool) \<Rightarrow> pystr \<Rightarrow> pystr list" where
  "extract_regions ua html_content =
     filter (\<lambda>m. m \<noteq> []) (re_findall (match_option ua) html_content)"

subsection \<open>\<open>DataManager.update_regions_in_html\<close>\<close>

definition SEL_OPEN :: pystr where
  \<open>SEL_OPEN = lit ''<select class="area-select" id="areaSelect">''\<close>

definition SEL_CLOSE :: pystr where
  \<open>SEL_CLOSE = lit ''</select>''\<close>

definition PLACEHOLDER :: pystr where
  \<open>PLACEHOLDER = lit ''<option value="">-- Choose an area --</option>''\<close>

text \<open>A line feed followed by \<open>n\<close> spaces.\<close>

definition nl_indent :: "nat \<Rightarrow> pystr" where
  "nl_indent n = 10 # replicate n 32"

definition option_markup :: "pystr \<Rightarrow> pystr" where
  "option_markup region = OPT_OPEN @ region @ QUOTE_GT @ region @ OPT_CLOSE"

definition options :: "pystr list \<Rightarrow> pystr" where
  "options regions = join (nl_indent 20) ([PLACEHOLDER] @ map option_markup (sort regions))"

definition new_select :: "pystr list \<Rightarrow> pystr" where
  "new_select regions =
     SEL_OPEN @ nl_indent 20 @ options regions @ nl_indent 16 @ SEL_CLOSE"

text \<open>
  The pattern \<^verbatim>\<open><select class="area-select" id="areaSelect">[\s\S]*?</select>\<close> at the head of a
  text: the whole match and the text after it.
\<close>

definition match_select :: "pystr matcher" where
  "match_select s =
     (case strip_prefix SEL_OPEN s of
        None \<Rightarrow> None
      | Some r \<Rightarrow>
          (case find_lit SEL_CLOSE r of
             None \<Rightarrow> None
           | Some (mid, rest) \<Rightarrow> Some (SEL_OPEN @ mid @ SEL_CLOSE, rest)))"

text \<open>
  The result is the new document and the exception reported through \<open>st.error\<close>, if any.
  \<open>re.sub\<close> takes \<open>new_select\<close> as a template; when the template is malformed the
  handler returns the document as it was.
\<close>

definition update_regions_in_html :: "pystr \<Rightarrow> pystr list \<Rightarrow> pystr \<times> exn option" where
  "update_regions_in_html html_content regions =
     (case parse_template (new_select regions) of
        Inl e \<Rightarrow> (html_content, Some e)
      | Inr t \<Rightarrow> (re_sub match_select (expand t) html_content, None))"

section \<open>Dealers\<close>

subsection \<open>JSON values and \<open>json.dumps\<close>\<close>

text \<open>
  The values \<open>json.loads\<close> returns and \<open>json.dumps\<close> accepts. A \<open>dict\<close> keeps its
  keys in insertion order, so an object is an association list with distinct keys in that
  order. Integers are exact. A float is kept as the text of its literal: Python's rounding
  to binary64 and the digits of \<open>repr\<close> are not modelled (the records of this program hold
  strings and lists of strings).
\<close>

datatype json =
    JNull
  | JBool bool
  | JInt int
  | JFloat pystr
  | JStr pystr
  | JArr "json list"
  | JObj "(pystr \<times> json) list"

text \<open>Decimal digits of a natural number, \<open>repr\<close> of an \<open>int\<close>, four lower-case hex digits.\<close>

function nat_repr :: "nat \<Rightarrow> pystr" where
  "nat_repr n = (if n < 10 then [48 + n] else nat_repr (n div 10) @ [48 + n mod 10])"
  by pat_completeness auto
termination
  by (relation "measure id") auto

definition int_repr :: "int \<Rightarrow> pystr" where
  "int_repr i = (if i < 0 then 45 # nat_repr (nat (- i)) else nat_repr (nat i))"

definition hex_digit :: "nat \<Rightarrow> codepoint" where
  "hex_digit d = (if d < 10 then 48 + d else 87 + d)"

definition hex4 :: "nat \<Rightarrow> pystr" where
  "hex4 n = [hex_digit (n div 4096 mod 16), hex_digit (n div 256 mod 16),
             hex_digit (n div 16 mod 16), hex_digit (n mod 16)]"

text \<open>
  A string with \<open>ensure_ascii=False\<close>: the double quote, the backslash and the control
  characters below U+0020 are escaped, every other code point is written as it is.
\<close>

definition escape_char :: "codepoint \<Rightarrow> pystr" where
  "escape_char c =
     (if c = 34 then [92, 34]
      else if c = 92 then [92, 92]
      else if c = 10 then [92, 110]
      else if c = 13 then [92, 114]
      else if c = 9 then [92, 116]
      else if c = 8 then [92, 98]
      else if c = 12 then [92, 102]
      else if c < 32 then [92, 117] @ hex4 c
      else [c])"

definition encode_str :: "pystr \<Rightarrow> pystr" where
  "encode_str s = 34 # concat (map escape_char s) @ [34]"

text \<open>
  \<open>json.dumps(v, indent=12, ensure_ascii=False)\<close> at nesting level \<open>lvl\<close>: items are
  separated by a comma and a new line, keys from values by a colon and a space, an empty
  list or dictionary is written without a line break.
\<close>

fun dumps_at :: "nat \<Rightarrow> json \<Rightarrow> pystr" where
  "dumps_at lvl JNull = lit ''null''"
| "dumps_at lvl (JBool b) = (if b then lit ''true'' else lit ''false'')"
| "dumps_at lvl (JInt i) = int_repr i"
| "dumps_at lvl (JFloat f) = f"
| "dumps_at lvl (JStr s) = encode_str s"
| "dumps_at lvl (JArr xs) =
     (if xs = [] then lit ''[]''
      else 91 # nl_indent (12 * Suc lvl)
           @ join (44 # nl_indent (12 * Suc lvl)) (map (dumps_at (Suc lvl)) xs)
           @ nl_indent (12 * lvl) @ [93])"
| "dumps_at lvl (JObj kvs) =
     (if kvs = [] then lit ''{}''
      else 123 # nl_indent (12 * Suc lvl)
           @ join (44 # nl_indent (12 * Suc lvl))
               (map (\<lambda>kv. encode_str (fst kv) @ lit '': '' @ dumps_at (Suc lvl) (snd kv)) kvs)
           @ nl_indent (12 * lvl) @ [125])"

definition dumps :: "json \<Rightarrow> pystr" where
  "dumps v = dumps_at 0 v"

subsection \<open>\<open>DataManager.update_dealers_in_html\<close>\<close>

definition STMT_OPEN :: pystr where
  "STMT_OPEN = lit ''const dealersData = [''"

definition STMT_CLOSE :: pystr where
  "STMT_CLOSE = lit ''];''"

text \<open>
  The pattern \<^verbatim>\<open>const dealersData = \[[\s\S]*?\];\<close> at the head of a text: the whole match
  and the text after it.
\<close>

definition match_dealers :: "pystr matcher" where
  "match_dealers s =
     (case strip_prefix STMT_OPEN s of
        None \<Rightarrow> None
      | Some r \<Rightarrow>
          (case find_lit STMT_CLOSE r of
             None \<Rightarrow> None
           | Some (mid, rest) \<Rightarrow> Some (STMT_OPEN @ mid @ STMT_CLOSE, rest)))"

text \<open>
  The result is the new document and the exception reported through \<open>st.error\<close>, if any.
  \<open>json.dumps\<close> does not raise on a JSON value. \<open>re.sub\<close> takes \<open>new_data\<close> as a
  template; when the template is malformed the handler returns the document as it was.
\<close>

definition new_data :: "json \<Rightarrow> pystr" where
  "new_data dealers_data = lit ''const dealersData = '' @ dumps dealers_data @ lit '';''"

definition update_dealers_in_html :: "pystr \<Rightarrow> json \<Rightarrow> pystr \<times> exn option" where
  "update_dealers_in_html html_content dealers_data =
     (case parse_template (new_data dealers_data) of
        Inl e \<Rightarrow> (html_content, Some e)
      | Inr t \<Rightarrow> (re_sub match_dealers (expand t) html_content, None))"

text \<open>
  What \<open>update_dealers_in_html\<close> leaves in the place of a matched span \<open>w\<close>: the expanded
  template, or the span itself when the template is rejected and the document is returned
  as it was.
\<close>

definition span_written :: "json \<Rightarrow> pystr \<Rightarrow> pystr" where
  "span_written dealers_data w =
     (case parse_template (new_data dealers_data) of Inl e \<Rightarrow> w | Inr t \<Rightarrow> expand t w)"

text \<open>
  \<open>only_spans_changed new s t\<close>: \<open>t\<close> is \<open>s\<close> with the spans that the pattern
  \<^verbatim>\<open>const dealersData = \[[\s\S]*?\];\<close> matches replaced by what \<open>new\<close> gives for them, and
  every character outside those spans kept, in order. The spans are stated without the
  matcher: a character is kept only where no text of the shape
  \<^verbatim>\<open>const dealersData = [\<close> \<open>\<dots>\<close> \<^verbatim>\<open>];\<close> begins (the leftmost match is taken), and a span ends at
  the first \<^verbatim>\<open>];\<close> behind its opening (the quantifier is lazy: no \<^verbatim>\<open>];\<close> lies in the middle
  part followed by \<^verbatim>\<open>]\<close>), so a span never reaches over a later statement.
\<close>

inductive only_spans_changed :: "(pystr \<Rightarrow> pystr) \<Rightarrow> pystr \<Rightarrow> pystr \<Rightarrow> bool"
  for new :: "pystr \<Rightarrow> pystr" where
  finish: "only_spans_changed new [] []"
| keep: "\<not> (\<exists>mid rest. c # s = STMT_OPEN @ mid @ STMT_CLOSE @ rest) \<Longrightarrow>
         only_spans_changed new s t \<Longrightarrow>
         only_spans_changed new (c # s) (c # t)"
| span: "\<not> (\<exists>a b. mid @ [93] = a @ STMT_CLOSE @ b) \<Longrightarrow>
         only_spans_changed new s t \<Longrightarrow>
         only_spans_changed new (STMT_OPEN @ mid @ STMT_CLOSE @ s)
           (new (STMT_OPEN @ mid @ STMT_CLOSE) @ t)"

subsection \<open>\<open>json.loads\<close>\<close>

text \<open>
  \<open>json.loads\<close> with its defaults, as the C scanner of CPython behaves: the text is cut
  into tokens, and a stack machine builds the value from the tokens. Every failure is a
  \<open>JSONDecodeError\<close>. The interpreter's recursion limit is not modelled: Python raises
  \<open>RecursionError\<close> on containers nested about a thousand deep, where this parser goes on.
\<close>

datatype token = TLBrace | TRBrace | TLBrack | TRBrack | TComma | TColon | TValue json

definition hex_val :: "codepoint \<Rightarrow> nat option" where
  "hex_val c =
     (if 48 \<le> c \<and> c \<le> 57 then Some (c - 48)
      else if 97 \<le> c \<and> c \<le> 102 then Some (c - 87)
      else if 65 \<le> c \<and> c \<le> 70 then Some (c - 55)
      else None)"

text \<open>Four hexadecimal digits: their value and the text after them.\<close>

definition read_hex4 :: "pystr \<Rightarrow> (nat \<times> pystr) option" where
  "read_hex4 s =
     (case s of
        h1 # h2 # h3 # h4 # r \<Rightarrow>
          (case (hex_val h1, hex_val h2, hex_val h3, hex_val h4) of
             (Some a, Some b, Some c, Some d) \<Rightarrow> Some (((a * 16 + b) * 16 + c) * 16 + d, r)
           | _ \<Rightarrow> None)
      | _ \<Rightarrow> None)"

text \<open>
  The text after \<^verbatim>\<open>\u\<close>: one code point and the rest. A high surrogate followed by an
  escaped low surrogate is joined with it; followed by another escape it stands alone and
  that escape is read again.
\<close>

definition unicode_escape :: "pystr \<Rightarrow> (codepoint \<times> pystr) option" where
  "unicode_escape s =
     (case read_hex4 s of
        None \<Rightarrow> None
      | Some (v, r) \<Rightarrow>
          if 55296 \<le> v \<and> v \<le> 56319 then
            (case r of
               a # b # r2 \<Rightarrow>
                 if a = 92 \<and> b = 117 then
                   (case read_hex4 r2 of
                      None \<Rightarrow> None
                    | Some (w, r3) \<Rightarrow>
                        if 56320 \<le> w \<and> w \<le> 57343
                        then Some (65536 + (v - 55296) * 1024 + (w - 56320), r3)
                        else Some (v, r))
                 else Some (v, r)
             | _ \<Rightarrow> Some (v, r))
          else Some (v, r))"

lemma unicode_escape_length: "unicode_escape s = Some (u, r) \<Longrightarrow> length r < length s"
  by (auto simp: unicode_escape_def read_hex4_def split: option.splits list.splits if_splits)

definition simple_escape :: "codepoint \<Rightarrow> codepoint option" where
  "simple_escape e =
     (if e = 34 then Some 34
      else if e = 92 then Some 92
      else if e = 47 then Some 47
      else if e = 98 then Some 8
      else if e = 102 then Some 12
      else if e = 110 then Some 10
      else if e = 114 then Some 13
      else if e = 116 then Some 9
      else None)"

text \<open>
  The text after an opening quote: the string and the text after the closing quote. In
  strict mode a control character inside a string is an error.
\<close>

function scanstring :: "pystr \<Rightarrow> (pystr \<times> pystr) option" where
  "scanstring [] = None"
| "scanstring (c # cs) =
     (if c = 34 then Some ([], cs)
      else if c = 92 then
        (case cs of
           [] \<Rightarrow> None
         | e # es \<Rightarrow>
             if e = 117 then
               (case unicode_escape es of
                  None \<Rightarrow> None
                | Some (u, r) \<Rightarrow> map_option (\<lambda>(s, r'). (u # s, r')) (scanstring r))
             else
               (case simple_escape e of
                  None \<Rightarrow> None
                | Some u \<Rightarrow> map_option (\<lambda>(s, r'). (u # s, r')) (scanstring es)))
      else if c < 32 then None
      else map_option (\<lambda>(s, r'). (c # s, r')) (scanstring cs))"
  by pat_completeness auto
termination
  by (relation "measure length") (auto dest: unicode_escape_length)

text \<open>
  A number, by the pattern \<^verbatim>\<open>(-?(?:0|[1-9][0-9]*))(\.[0-9]+)?([eE][-+]?[0-9]+)?\<close>: an
  integer when there is neither fraction nor exponent, a float otherwise. The conversion
  of an integer of more than 4300 digits raises (the default \<open>int_max_str_digits\<close>).
\<close>

definition digits_val :: "pystr \<Rightarrow> nat" where
  "digits_val ds = foldl (\<lambda>n d. n * 10 + (d - 48)) 0 ds"

definition scan_int_part :: "pystr \<Rightarrow> (pystr \<times> pystr) option" where
  "scan_int_part s =
     (case s of
        [] \<Rightarrow> None
      | d # r \<Rightarrow>
          if d = 48 then Some ([48], r)
          else if is_digit d then Some (d # takeWhile is_digit r, dropWhile is_digit r)
          else None)"

definition scan_frac :: "pystr \<Rightarrow> pystr \<times> pystr" where
  "scan_frac s =
     (case s of
        d # r \<Rightarrow>
          if d = 46 \<and> takeWhile is_digit r \<noteq> []
          then (d # takeWhile is_digit r, dropWhile is_digit r)
          else ([], s)
      | [] \<Rightarrow> ([], s))"

definition scan_exp :: "pystr \<Rightarrow> pystr \<times> pystr" where
  "scan_exp s =
     (case s of
        e # r \<Rightarrow>
          if e = 101 \<or> e = 69 then
            (case r of
               g # r2 \<Rightarrow>
                 if (g = 43 \<or> g = 45) \<and> takeWhile is_digit r2 \<noteq> []
                 then (e # g # takeWhile is_digit r2, dropWhile is_digit r2)
                 else if takeWhile is_digit r \<noteq> []
                 then (e # takeWhile is_digit r, dropWhile is_digit r)
                 else ([], s)
             | [] \<Rightarrow> ([], s))
          else ([], s)
      | [] \<Rightarrow> ([], s))"

definition scan_number :: "pystr \<Rightarrow> (json \<times> pystr) option option" where
  "scan_number s =
     (let neg = (case s of c # _ \<Rightarrow> c = 45 | [] \<Rightarrow> False);
          s1 = (if neg then tl s else s)
      in case scan_int_part s1 of
           None \<Rightarrow> None
         | Some (ds, r1) \<Rightarrow>
             let (frac, r2) = scan_frac r1; (ex, r3) = scan_exp r2 in
             if frac = [] \<and> ex = [] then
               (if length ds > 4300 then Some None
                else Some (Some (JInt (if neg then - int (digits_val ds) else int (digits_val ds)), r3)))
             else Some (Some (JFloat ((if neg then [45] else []) @ ds @ frac @ ex), r3)))"

text \<open>
  One scalar at the head of the text, in the order in which the scanner tries them; the
  outer \<open>None\<close> is "no scalar here", the inner one an exception.
\<close>

definition scan_scalar :: "pystr \<Rightarrow> (json \<times> pystr) option" where
  "scan_scalar s =
     (case strip_prefix (lit ''null'') s of Some r \<Rightarrow> Some (JNull, r) | None \<Rightarrow>
      case strip_prefix (lit ''true'') s of Some r \<Rightarrow> Some (JBool True, r) | None \<Rightarrow>
      case strip_prefix (lit ''false'') s of Some r \<Rightarrow> Some (JBool False, r) | None \<Rightarrow>
      case scan_number s of Some res \<Rightarrow> res | None \<Rightarrow>
      case strip_prefix (lit ''NaN'') s of Some r \<Rightarrow> Some (JFloat (lit ''NaN''), r) | None \<Rightarrow>
      case strip_prefix (lit ''Infinity'') s of Some r \<Rightarrow> Some (JFloat (lit ''Infinity''), r) | None \<Rightarrow>
      case strip_prefix (lit ''-Infinity'') s of Some r \<Rightarrow> Some (JFloat (lit ''-Infinity''), r) | None \<Rightarrow>
      None)"

lemma strip_prefix_length: "strip_prefix p s = Some r \<Longrightarrow> length s = length p + length r"
  by (induction p s rule: strip_prefix.induct) (auto split: if_splits)

lemma scanstring_length: "scanstring s = Some (x, r) \<Longrightarrow> length r < length s"
proof (induction s arbitrary: x r rule: scanstring.induct)
  case 1
  then show ?case by simp
next
  case (2 c cs)
  show ?case
  proof (cases "c = 34")
    case True
    with 2(4) show ?thesis by simp
  next
    case q: False
    show ?thesis
    proof (cases "c = 92")
      case False
      with q 2(4) obtain x' where "scanstring cs = Some (x', r)"
        by (auto split: if_splits)
      from 2(3) [OF q False _ this] 2(4) q False show ?thesis
        by (auto split: if_splits)
    next
      case True
      with 2(4) obtain e es where cs: "cs = e # es" by (cases cs) auto
      show ?thesis
      proof (cases "e = 117")
        case u: True
        with True q cs 2(4) obtain v r1 x' where
          ue: "unicode_escape es = Some (v, r1)" and sc: "scanstring r1 = Some (x', r)"
          by (auto split: option.splits)
        from 2(1) [OF q True cs u ue refl sc] unicode_escape_length [OF ue] cs
        show ?thesis by simp
      next
        case u: False
        with True q cs 2(4) obtain v x' where
          se: "simple_escape e = Some v" and sc: "scanstring es = Some (x', r)"
          by (auto split: option.splits)
        from 2(2) [OF q True cs u se sc] cs show ?thesis by simp
      qed
    qed
  qed
qed

lemma scan_int_part_length: "scan_int_part s = Some (ds, r) \<Longrightarrow> length r < length s"
  by (auto simp: scan_int_part_def split: list.splits if_splits
      intro: le_imp_less_Suc length_dropWhile_le)

lemma scan_frac_length: "scan_frac s = (f, r) \<Longrightarrow> length r \<le> length s"
  by (auto simp: scan_frac_def split: list.splits if_splits
      intro: le_SucI length_dropWhile_le)

lemma scan_exp_length: "scan_exp s = (f, r) \<Longrightarrow> length r \<le> length s"
  by (auto simp: scan_exp_def split: list.splits if_splits
      intro: le_SucI length_dropWhile_le)

lemma scan_number_length:
  assumes "scan_number s = Some (Some (v, r))"
  shows "length r < length s"
proof -
  define s1 where "s1 = (if (case s of c # _ \<Rightarrow> c = 45 | [] \<Rightarrow> False) then tl s else s)"
  have l1: "length s1 \<le> length s" by (simp add: s1_def)
  from assms obtain ds r1 where ip: "scan_int_part s1 = Some (ds, r1)"
    by (cases "scan_int_part s1") (auto simp: scan_number_def Let_def s1_def)
  obtain f r2 where fr: "scan_frac r1 = (f, r2)" by (cases "scan_frac r1")
  obtain ex r3 where er: "scan_exp r2 = (ex, r3)" by (cases "scan_exp r2")
  from assms ip fr er have "r = r3"
    by (auto simp: scan_number_def Let_def s1_def split: if_splits)
  with scan_int_part_length [OF ip] scan_frac_length [OF fr] scan_exp_length [OF er] l1
  show ?thesis by simp
qed

lemma scan_scalar_length: "scan_scalar s = Some (v, r) \<Longrightarrow> length r < length s"
  by (auto simp: scan_scalar_def lit_def split: option.splits
      dest: strip_prefix_length scan_number_length)

definition is_ws :: "codepoint \<Rightarrow> bool" where
  "is_ws c = (c = 32 \<or> c = 9 \<or> c = 10 \<or> c = 13)"

function tokenize :: "pystr \<Rightarrow> token list option" where
  "tokenize [] = Some []"
| "tokenize (c # cs) =
     (if is_ws c then tokenize cs
      else if c = 123 then map_option (Cons TLBrace) (tokenize cs)
      else if c = 125 then map_option (Cons TRBrace) (tokenize cs)
      else if c = 91 then map_option (Cons TLBrack) (tokenize cs)
      else if c = 93 then map_option (Cons TRBrack) (tokenize cs)
      else if c = 44 then map_option (Cons TComma) (tokenize cs)
      else if c = 58 then map_option (Cons TColon) (tokenize cs)
      else if c = 34 then
        (case scanstring cs of
           None \<Rightarrow> None
         | Some (s, r) \<Rightarrow> map_option (Cons (TValue (JStr s))) (tokenize r))
      else
        (case scan_scalar (c # cs) of
           None \<Rightarrow> None
         | Some (v, r) \<Rightarrow> map_option (Cons (TValue v)) (tokenize r)))"
  by pat_completeness auto
termination
  by (relation "measure length")
     (auto dest: scanstring_length scan_scalar_length intro: less_SucI)

text \<open>
  Assignment to a key of a \<open>dict\<close>: a key already present keeps its place and takes the
  new value, a new key goes to the end.
\<close>

fun dict_set :: "(pystr \<times> json) list \<Rightarrow> pystr \<Rightarrow> json \<Rightarrow> (pystr \<times> json) list" where
  "dict_set [] k v = [(k, v)]"
| "dict_set (p # ps) k v = (if fst p = k then (k, v) # ps else p # dict_set ps k v)"

text \<open>
  The containers under construction: a list with its items so far, an object that waits
  for a key or a delimiter, an object that waits for the value of a key.
\<close>

datatype frame =
    FArr "json list"
  | FObj "(pystr \<times> json) list"
  | FMember "(pystr \<times> json) list" pystr

datatype expect =
    EValue
  | EFirstItem
  | EFirstKey
  | EKey
  | EColon
  | EDelim
  | EDone json

text \<open>A finished value goes into the innermost open container, or is the result.\<close>

fun complete :: "json \<Rightarrow> frame list \<Rightarrow> (expect \<times> frame list) option" where
  "complete v [] = Some (EDone v, [])"
| "complete v (FArr items # st) = Some (EDelim, FArr (items @ [v]) # st)"
| "complete v (FMember kvs k # st) = Some (EDelim, FObj (dict_set kvs k v) # st)"
| "complete v (FObj kvs # st) = None"

fun start_value :: "token \<Rightarrow> frame list \<Rightarrow> (expect \<times> frame list) option" where
  "start_value (TValue v) st = complete v st"
| "start_value TLBrack st = Some (EFirstItem, FArr [] # st)"
| "start_value TLBrace st = Some (EFirstKey, FObj [] # st)"
| "start_value _ st = None"

fun start_key :: "token \<Rightarrow> frame list \<Rightarrow> (expect \<times> frame list) option" where
  "start_key (TValue (JStr k)) (FObj kvs # st) = Some (EColon, FMember kvs k # st)"
| "start_key _ st = None"

fun step :: "expect \<times> frame list \<Rightarrow> token \<Rightarrow> (expect \<times> frame list) option" where
  "step (EValue, st) t = start_value t st"
| "step (EFirstItem, st) t =
     (case (t, st) of
        (TRBrack, FArr items # st') \<Rightarrow> complete (JArr items) st'
      | _ \<Rightarrow> start_value t st)"
| "step (EFirstKey, st) t =
     (case (t, st) of
        (TRBrace, FObj kvs # st') \<Rightarrow> complete (JObj kvs) st'
      | _ \<Rightarrow> start_key t st)"
| "step (EKey, st) t = start_key t st"
| "step (EColon, st) t = (case t of TColon \<Rightarrow> Some (EValue, st) | _ \<Rightarrow> None)"
| "step (EDelim, st) t =
     (case (t, st) of
        (TComma, FArr items # st') \<Rightarrow> Some (EValue, st)
      | (TRBrack, FArr items # st') \<Rightarrow> complete (JArr items) st'
      | (TComma, FObj kvs # st') \<Rightarrow> Some (EKey, st)
      | (TRBrace, FObj kvs # st') \<Rightarrow> complete (JObj kvs) st'
      | _ \<Rightarrow> None)"
| "step (EDone v, st) t = None"

fun run_tokens :: "expect \<times> frame list \<Rightarrow> token list \<Rightarrow> json option" where
  "run_tokens (e, st) [] = (case e of EDone v \<Rightarrow> Some v | _ \<Rightarrow> None)"
| "run_tokens (e, st) (t # ts) = (case step (e, st) t of None \<Rightarrow> None | Some s' \<Rightarrow> run_tokens s' ts)"

definition json_loads :: "pystr \<Rightarrow> exn + json" where
  "json_loads s =
     (if (case s of c # _ \<Rightarrow> c = 65279 | [] \<Rightarrow> False) then Inl JSONDecodeError
      else case tokenize s of
        None \<Rightarrow> Inl JSONDecodeError
      | Some ts \<Rightarrow>
          (case run_tokens (EValue, []) ts of
             None \<Rightarrow> Inl JSONDecodeError
           | Some v \<Rightarrow> Inr v))"

subsection \<open>\<open>DataManager.extract_dealers_data\<close>\<close>

text \<open>
  The pattern \<^verbatim>\<open>const dealersData = (\[[\s\S]*?\]);\<close> at the head of a text: group 1, which
  is the array literal with its brackets, and the text after the match.
\<close>

definition match_dealers_group :: "pystr matcher" where
  "match_dealers_group s =
     (case strip_prefix STMT_OPEN s of
        None \<Rightarrow> None
      | Some r \<Rightarrow>
          (case find_lit STMT_CLOSE r of
             None \<Rightarrow> None
           | Some (mid, rest) \<Rightarrow> Some (91 # mid @ [93], rest)))"

text \<open>
  The pattern \<^verbatim>\<open>(\w+):\<close> at the head of a text: group 1 and the text after the colon. The
  colon is no word character, so group 1 is the whole run of word characters.
\<close>

definition match_key :: "(codepoint \<Rightarrow> bool) \<Rightarrow> pystr matcher" where
  "match_key ua s =
     (let x = takeWhile (is_word ua) s in
      if x = [] then None
      else case dropWhile (is_word ua) s of
        [] \<Rightarrow> None
      | c # r \<Rightarrow> if c = 58 then Some (x, r) else None)"

text \<open>The replacement \<^verbatim>\<open>"\1":\<close>.\<close>

definition quoted_key :: "pystr \<Rightarrow> pystr" where
  "quoted_key k = 34 # k @ [34, 58]"

text \<open>A pattern that is a literal text.\<close>

definition match_lit :: "pystr \<Rightarrow> unit matcher" where
  "match_lit p s = map_option (\<lambda>r. ((), r)) (strip_prefix p s)"

text \<open>
  The three garbled glyphs of the source and the glyphs they stand for: the rupee sign
  U+20B9, the star U+2B50 and the telephone receiver U+1F4DE, each read as Windows-1252.
\<close>

definition RUPEE_GARBLED :: pystr where "RUPEE_GARBLED = [226, 8218, 185]"
definition RUPEE :: pystr where "RUPEE = [8377]"
definition STAR_GARBLED :: pystr where "STAR_GARBLED = [226, 173]"
definition STAR :: pystr where "STAR = [11088]"
definition PHONE_GARBLED :: pystr where "PHONE_GARBLED = [240, 376, 34, 382]"
definition PHONE :: pystr where "PHONE = [128222]"

text \<open>The clean-up of the array literal, in the order of the source.\<close>

definition clean_up :: "(codepoint \<Rightarrow> bool) \<Rightarrow> pystr \<Rightarrow> pystr" where
  "clean_up ua dealers_str =
     re_sub (match_lit PHONE_GARBLED) (\<lambda>_. PHONE)
       (re_sub (match_lit STAR_GARBLED) (\<lambda>_. STAR)
         (re_sub (match_lit RUPEE_GARBLED) (\<lambda>_. RUPEE)
           (re_sub (match_key ua) quoted_key dealers_str)))"

text \<open>
  The result is the value returned and the exception reported through \<open>st.error\<close>, if
  any. Without a match nothing is reported.
\<close>

definition extract_dealers_data :: "(codepoint \<Rightarrow> bool) \<Rightarrow> pystr \<Rightarrow> json \<times> exn option" where
  "extract_dealers_data ua html_content =
     (case re_search match_dealers_group html_content of
        None \<Rightarrow> (JArr [], None)
      | Some (before, dealers_str, after) \<Rightarrow>
          (case json_loads (clean_up ua dealers_str) of
             Inl e \<Rightarrow> (JArr [], Some e)
           | Inr dealers \<Rightarrow> (dealers, None)))"

section \<open>The add and edit forms of \<open>main\<close>\<close>

text \<open>
  What the operator typed into a dealer form: three text inputs, the regions chosen, and
  one pair of name and price per paddy row.
\<close>

record form =
  form_name :: pystr
  form_contact :: pystr
  form_rating :: pystr
  form_regions :: "pystr list"
  form_paddy_rows :: "(pystr \<times> pystr) list"

text \<open>The part of \<open>st.session_state\<close> that the two forms read and write.\<close>

record session =
  st_dealers :: "json list"
  st_changes_made :: bool
  st_editing_dealer :: "nat option"

datatype feedback = Success | Error

text \<open>A row becomes a price entry when both of its inputs are filled.\<close>

definition paddy_type :: "pystr \<times> pystr \<Rightarrow> json" where
  "paddy_type row =
     JObj [(lit ''name'', JStr (fst row)), (lit ''price'', JStr (snd row)),
           (lit ''unit'', JStr (lit ''per quintal''))]"

definition paddy_types :: "(pystr \<times> pystr) list \<Rightarrow> json list" where
  "paddy_types rows = map paddy_type (filter (\<lambda>row. fst row \<noteq> [] \<and> snd row \<noteq> []) rows)"

definition dealer_of :: "form \<Rightarrow> json" where
  "dealer_of f =
     JObj [(lit ''name'', JStr (form_name f)), (lit ''contact'', JStr (form_contact f)),
           (lit ''rating'', JStr (form_rating f)), (lit ''regions'', JArr (map JStr (form_regions f))),
           (lit ''paddyTypes'', JArr (paddy_types (form_paddy_rows f)))]"

text \<open>The "Add Dealer" button: the record is appended when every input is filled.\<close>

definition submit_add :: "form \<Rightarrow> session \<Rightarrow> session \<times> feedback" where
  "submit_add f s =
     (if form_name f \<noteq> [] \<and> form_contact f \<noteq> [] \<and> form_rating f \<noteq> [] \<and> form_regions f \<noteq> []
         \<and> paddy_types (form_paddy_rows f) \<noteq> []
      then (s\<lparr>st_dealers := st_dealers s @ [dealer_of f], st_changes_made := True\<rparr>, Success)
      else (s, Error))"

text \<open>
  The "Save Changes" button of the edit form: the record at the index being edited is
  replaced. An index outside the list raises \<open>IndexError\<close>, which nothing catches.
\<close>

definition submit_edit :: "nat \<Rightarrow> form \<Rightarrow> session \<Rightarrow> exn + session \<times> feedback" where
  "submit_edit idx f s =
     (if idx < length (st_dealers s)
      then Inr (s\<lparr>st_dealers := (st_dealers s)[idx := dealer_of f], st_changes_made := True,
                   st_editing_dealer := None\<rparr>, Success)
      else Inl IndexError)"

section \<open>Auxiliary notions\<close>

text \<open>
  \<open>lt_then P s\<close>: every \<open><\<close> of \<open>s\<close> is followed, inside \<open>s\<close>, by a character that
  satisfies \<open>P\<close>. It is used to show that an option fragment cannot begin in one piece of
  a text and end in the next.
\<close>

fun lt_then :: "(codepoint \<Rightarrow> bool) \<Rightarrow> pystr \<Rightarrow> bool" where
  "lt_then P [] = True"
| "lt_then P [c] = (c \<noteq> 60)"
| "lt_then P (c # d # s) = ((c \<noteq> 60 \<or> P d) \<and> lt_then P (d # s))"

text \<open>The example of the specification: the array literal between the brackets, and its records.\<close>

definition EXAMPLE_BODY :: pystr where
  \<open>EXAMPLE_BODY = lit ''{name:"A",contact:"1",rating:"5",regions:["X"],paddyTypes:[{name:"Rice",price:"100",unit:"per quintal"}]}''\<close>

definition EXAMPLE_RECORDS :: json where
  "EXAMPLE_RECORDS =
     JArr [JObj [(lit ''name'', JStr (lit ''A'')), (lit ''contact'', JStr (lit ''1'')),
       (lit ''rating'', JStr (lit ''5'')), (lit ''regions'', JArr [JStr (lit ''X'')]),
       (lit ''paddyTypes'', JArr [JObj [(lit ''name'', JStr (lit ''Rice'')),
          (lit ''price'', JStr (lit ''100'')), (lit ''unit'', JStr (lit ''per quintal''))]])]]"

section \<open>Properties\<close>

subsection \<open>Matching\<close>

lemma strip_prefix_iff: "strip_prefix p s = Some r \<longleftrightarrow> s = p @ r"
  by (induction p s rule: strip_prefix.induct) auto

lemma strip_prefix_append [simp]: "strip_prefix p (p @ r) = Some r"
  by (simp add: strip_prefix_iff)

lemma find_lit_sound: "find_lit p s = Some (b, r) \<Longrightarrow> s = b @ p @ r"
  by (induction s arbitrary: b) (auto simp: strip_prefix_iff split: option.splits)

lemma re_findall_all:
  "(\<forall>t x r. m t = Some (x, r) \<longrightarrow> P x) \<Longrightarrow> \<forall>x \<in> set (re_findall m s). P x"
proof (induction m s rule: re_findall.induct)
  case (1 m)
  then show ?case by (cases "m []") auto
next
  case (2 m c cs)
  show ?case
  proof (cases "m (c # cs)")
    case None
    with 2 show ?thesis by simp
  next
    case (Some a)
    obtain x r where a: "a = (x, r)" by (cases a)
    have px: "P x" using 2(4) Some a by blast
    show ?thesis
    proof (cases "length r < Suc (length cs)")
      case True
      have "\<forall>x\<in>set (re_findall m r). P x" using 2(2) [OF Some a [symmetric] True] 2(4) by blast
      with px Some a True show ?thesis by simp
    next
      case False
      have "\<forall>x\<in>set (re_findall m cs). P x" using 2(3) [OF Some a [symmetric] False] 2(4) by blast
      with px Some a False show ?thesis by simp
    qed
  qed
qed



lemma not_word_quote: "\<not> is_word ua 34"
  by (simp add: is_word_def)

lemma QUOTE_GT_unfold: "QUOTE_GT = [34, 62]"
  by (simp add: QUOTE_GT_def lit_def)

lemma takeWhile_word_run:
  "\<forall>c \<in> set x. is_word ua c \<Longrightarrow> takeWhile (is_word ua) (x @ QUOTE_GT @ t) = x"
  by (simp add: QUOTE_GT_unfold not_word_quote)

lemma dropWhile_word_run:
  "\<forall>c \<in> set x. is_word ua c \<Longrightarrow> dropWhile (is_word ua) (x @ QUOTE_GT @ t) = QUOTE_GT @ t"
  by (simp add: QUOTE_GT_unfold not_word_quote)

lemma match_option_markup:
  assumes "x \<noteq> []" and "\<forall>c \<in> set x. is_word ua c"
  shows "match_option ua (option_markup x @ r) = Some (x, r)"
proof -
  let ?t = "x @ OPT_CLOSE @ r"
  have s: "option_markup x @ r = OPT_OPEN @ (x @ QUOTE_GT @ ?t)"
    by (simp add: option_markup_def)
  have 1: "strip_prefix OPT_OPEN (option_markup x @ r) = Some (x @ QUOTE_GT @ ?t)"
    unfolding s by (rule strip_prefix_append)
  have 2: "takeWhile (is_word ua) (x @ QUOTE_GT @ ?t) = x"
    using assms(2) by (rule takeWhile_word_run)
  have 3: "dropWhile (is_word ua) (x @ QUOTE_GT @ ?t) = QUOTE_GT @ ?t"
    using assms(2) by (rule dropWhile_word_run)
  show ?thesis
    unfolding match_option_def 1 option.case 2 3 Let_def strip_prefix_append
    using assms(1) by simp
qed

lemma match_option_sound:
  assumes "match_option ua s = Some (x, r)"
  shows "x \<noteq> [] \<and> (\<forall>c \<in> set x. is_word ua c) \<and> s = option_markup x @ r"
proof -
  from assms obtain r1 where r1: "strip_prefix OPT_OPEN s = Some r1"
    by (cases "strip_prefix OPT_OPEN s") (simp_all add: match_option_def)
  let ?x = "takeWhile (is_word ua) r1"
  from assms r1 have ne: "?x \<noteq> []"
    by (simp add: match_option_def Let_def split: if_splits)
  from assms r1 ne obtain r2 where r2: "strip_prefix QUOTE_GT (dropWhile (is_word ua) r1) = Some r2"
    by (cases "strip_prefix QUOTE_GT (dropWhile (is_word ua) r1)") (simp_all add: match_option_def Let_def)
  from assms r1 ne r2 obtain r3 where r3: "strip_prefix ?x r2 = Some r3"
    by (cases "strip_prefix ?x r2") (simp_all add: match_option_def Let_def)
  from assms r1 ne r2 r3 obtain r4 where r4: "strip_prefix OPT_CLOSE r3 = Some r4"
    by (cases "strip_prefix OPT_CLOSE r3") (simp_all add: match_option_def Let_def)
  from assms r1 ne r2 r3 r4 have xr: "x = ?x" "r = r4"
    by (simp_all add: match_option_def Let_def)
  have "r1 = ?x @ dropWhile (is_word ua) r1" by simp
  also have "dropWhile (is_word ua) r1 = QUOTE_GT @ r2" using r2 by (simp add: strip_prefix_iff)
  also have "r2 = ?x @ r3" using r3 by (simp add: strip_prefix_iff)
  also have "r3 = OPT_CLOSE @ r4" using r4 by (simp add: strip_prefix_iff)
  finally have "s = OPT_OPEN @ ?x @ QUOTE_GT @ ?x @ OPT_CLOSE @ r4"
    using r1 by (simp add: strip_prefix_iff)
  moreover have "\<forall>c \<in> set ?x. is_word ua c" by (auto dest: set_takeWhileD)
  ultimately show ?thesis using ne xr by (simp add: option_markup_def)
qed

lemma lt_then_suffix: "lt_then P (a @ b) \<Longrightarrow> lt_then P b"
proof (induction P a rule: lt_then.induct)
  case (1 P) then show ?case by simp
next
  case (2 P c) then show ?case by (cases b) auto
next
  case (3 P c d s) then show ?case by simp
qed

lemma lt_then_no_lt: "60 \<notin> set a \<Longrightarrow> lt_then P (a @ b) = lt_then P b"
proof (induction P a rule: lt_then.induct)
  case (1 P) then show ?case by simp
next
  case (2 P c) then show ?case by (cases b) auto
next
  case (3 P c d s) then show ?case by simp
qed

lemma not_word_lt: "\<not> is_word ua 60"
  by (simp add: is_word_def)

lemma word_no_lt: "\<forall>c \<in> set x. is_word ua c \<Longrightarrow> 60 \<notin> set x"
  using not_word_lt by blast

lemma OPT_OPEN_unfold: "OPT_OPEN = 60 # 111 # tl (tl OPT_OPEN)"
  by (simp add: OPT_OPEN_def lit_def)

lemma OPT_OPEN_tl_no_lt: "60 \<notin> set (tl OPT_OPEN)"
  by (simp add: OPT_OPEN_def lit_def)

lemma OPT_CLOSE_lt_slash: "lt_then (\<lambda>d. d = 47) (OPT_CLOSE @ r) = lt_then (\<lambda>d. d = 47) r"
proof -
  define t where "t = 47 # tl (tl OPT_CLOSE)"
  have A: "OPT_CLOSE = 60 # t" and B: "60 \<notin> set t"
    by (simp_all add: t_def OPT_CLOSE_def lit_def)
  have "lt_then (\<lambda>d. d = 47) (OPT_CLOSE @ r) = lt_then (\<lambda>d. d = 47) (t @ r)"
    unfolding A by (simp add: t_def)
  also have "\<dots> = lt_then (\<lambda>d. d = 47) r" using B by (rule lt_then_no_lt)
  finally show ?thesis .
qed

lemma option_markup_lt_slash:
  assumes "\<forall>c \<in> set x. is_word ua c"
  shows "lt_then (\<lambda>d. d = 47) (tl (option_markup x))"
proof -
  have x: "60 \<notin> set x" using assms by (rule word_no_lt)
  have q: "60 \<notin> set QUOTE_GT" by (simp add: QUOTE_GT_def lit_def)
  have "tl (option_markup x) = tl OPT_OPEN @ x @ QUOTE_GT @ x @ OPT_CLOSE @ []"
    by (simp add: option_markup_def OPT_OPEN_def lit_def)
  then show ?thesis
    by (simp only: lt_then_no_lt [OF OPT_OPEN_tl_no_lt] lt_then_no_lt [OF x] lt_then_no_lt [OF q]
        OPT_CLOSE_lt_slash lt_then.simps)
qed

lemma no_straddle:
  assumes m: "match_option ua (u @ v) = Some (x, r)"
    and u: "u \<noteq> []"
    and v: "v = 60 # c # v'" "c \<noteq> 47"
  shows "\<exists>r0. r = r0 @ v \<and> u = option_markup x @ r0"
proof -
  from match_option_sound [OF m]
  have x: "x \<noteq> []" "\<forall>c \<in> set x. is_word ua c" and eq: "u @ v = option_markup x @ r"
    by simp_all
  from eq obtain w where "(u = option_markup x @ w \<and> w @ v = r) \<or> (u @ w = option_markup x \<and> v = w @ r)"
    by (auto simp: append_eq_append_conv2)
  then show ?thesis
  proof
    assume "u = option_markup x @ w \<and> w @ v = r"
    then show ?thesis by auto
  next
    assume a: "u @ w = option_markup x \<and> v = w @ r"
    show ?thesis
    proof (cases w)
      case Nil
      with a show ?thesis by auto
    next
      case (Cons a w')
      with a v have a60: "a = 60" by simp
      have "tl (u @ w) = tl u @ w" using u by (cases u) auto
      with a have "tl (option_markup x) = tl u @ w" by simp
      with option_markup_lt_slash [OF x(2)] have "lt_then (\<lambda>d. d = 47) (tl u @ w)"
        by simp
      then have "lt_then (\<lambda>d. d = 47) w" by (rule lt_then_suffix)
      moreover have "w = [60] \<or> (\<exists>w''. w = 60 # c # w'')"
        using a v Cons a60 by (cases w') auto
      ultimately show ?thesis using v(2) by auto
    qed
  qed
qed


lemma match_option_mono:
  assumes "match_option ua u = Some (x, r0)"
  shows "match_option ua (u @ v) = Some (x, r0 @ v)"
proof -
  from match_option_sound [OF assms]
  have x: "x \<noteq> []" "\<forall>c \<in> set x. is_word ua c" and eq: "u = option_markup x @ r0"
    by simp_all
  show ?thesis using match_option_markup [OF x, of "r0 @ v"] eq by simp
qed

lemma match_option_Nil: "match_option ua [] = None"
  by (simp add: match_option_def OPT_OPEN_def lit_def)

lemma option_markup_length: "length r0 < length (option_markup x @ r0)"
  by (simp add: option_markup_def OPT_OPEN_def lit_def)

lemma re_findall_hit:
  assumes "m s = Some (x, r)" "length r < length s"
  shows "re_findall m s = x # re_findall m r"
  using assms by (cases s) auto

lemma re_findall_miss:
  assumes "m (c # cs) = None"
  shows "re_findall m (c # cs) = re_findall m cs"
  using assms by simp

lemma findall_split:
  assumes v: "v = 60 # c # v'" "c \<noteq> 47"
  shows "re_findall (match_option ua) (u @ v)
         = re_findall (match_option ua) u @ re_findall (match_option ua) v"
proof (induction "length u" arbitrary: u rule: less_induct)
  case less
  show ?case
  proof (cases u)
    case Nil
    then show ?thesis by (simp add: match_option_Nil)
  next
    case (Cons a u')
    show ?thesis
    proof (cases "match_option ua (u @ v)")
      case None
      have "match_option ua u = None"
      proof (cases "match_option ua u")
        case (Some p)
        obtain x r0 where "p = (x, r0)" by (cases p)
        with Some match_option_mono [of ua u x r0 v] None show ?thesis by simp
      qed simp
      with None Cons less(1) [of u'] show ?thesis by simp
    next
      case (Some p)
      obtain x r where p: "p = (x, r)" by (cases p)
      from no_straddle [OF Some [unfolded p] _ v] Cons
      obtain r0 where r0: "r = r0 @ v" "u = option_markup x @ r0" by auto
      from match_option_sound [OF Some [unfolded p]]
      have x: "x \<noteq> []" "\<forall>c \<in> set x. is_word ua c" by simp_all
      have mu: "match_option ua u = Some (x, r0)"
        unfolding r0(2) using x by (rule match_option_markup)
      have lu: "length r0 < length u" unfolding r0(2) by (rule option_markup_length)
      have 1: "re_findall (match_option ua) (u @ v) = x # re_findall (match_option ua) (r0 @ v)"
        using Some p r0(1) lu by (intro re_findall_hit) auto
      have 2: "re_findall (match_option ua) (r0 @ v)
                 = re_findall (match_option ua) r0 @ re_findall (match_option ua) v"
        using lu by (rule less(1))
      have 3: "re_findall (match_option ua) u = x # re_findall (match_option ua) r0"
        using re_findall_hit [of "match_option ua" u x r0] mu lu by simp
      show ?thesis by (simp only: 1 2 3 append_Cons)
    qed
  qed
qed

text \<open>
  C9. Every label that \<open>extract_regions\<close> returns is a non-empty run of word characters
  (letters, digits, underscore); an option whose label holds a space, a hyphen or any other
  character is therefore never among the results.
\<close>

theorem extract_regions_word_only:
  "\<forall>x \<in> set (extract_regions ua html_content). x \<noteq> [] \<and> (\<forall>c \<in> set x. is_word ua c)"
proof -
  have "\<forall>t x r. match_option ua t = Some (x, r) \<longrightarrow> (\<forall>c \<in> set x. is_word ua c)"
    using match_option_sound by blast
  from re_findall_all [OF this, of html_content] show ?thesis
    unfolding extract_regions_def by auto
qed

theorem extract_regions_word_only_witness:
  \<open>extract_regions ascii_only
     (lit ''<option value="North East">North East</option><option value="East_1">East_1</option>'')
   = [lit ''East_1''] \<and>
   lit ''East_1'' \<noteq> [] \<and> list_all (is_word ascii_only) (lit ''East_1'')\<close>
proof -
  have e: \<open>extract_regions ascii_only
     (lit ''<option value="North East">North East</option><option value="East_1">East_1</option>'')
   = [lit ''East_1'']\<close>
    by code_simp
  from extract_regions_word_only [of ascii_only
      \<open>lit ''<option value="North East">North East</option><option value="East_1">East_1</option>''\<close>]
  have \<open>\<forall>x \<in> set [lit ''East_1'']. x \<noteq> [] \<and> (\<forall>c \<in> set x. is_word ascii_only c)\<close>
    unfolding e .
  then have \<open>lit ''East_1'' \<noteq> [] \<and> list_all (is_word ascii_only) (lit ''East_1'')\<close>
    unfolding list_all_iff by simp
  with e show ?thesis by simp
qed

lemma re_findall_origin:
  "(\<forall>t x r. m t = Some (x, r) \<longrightarrow> (\<exists>w. t = w @ r)) \<Longrightarrow>
   \<forall>x \<in> set (re_findall m s). \<exists>p t r. s = p @ t \<and> m t = Some (x, r)"
proof (induction m s rule: re_findall.induct)
  case (1 m)
  show ?case
  proof (cases "m []")
    case None then show ?thesis by simp
  next
    case (Some a)
    obtain x r where "a = (x, r)" by (cases a)
    with Some show ?thesis by auto
  qed
next
  case (2 m c cs)
  show ?case
  proof (cases "m (c # cs)")
    case None
    have "\<forall>x\<in>set (re_findall m cs). \<exists>p t r. cs = p @ t \<and> m t = Some (x, r)"
      using 2(1) [OF None] 2(4) by blast
    then have "\<forall>x\<in>set (re_findall m cs). \<exists>p t r. c # cs = p @ t \<and> m t = Some (x, r)"
      by (metis append_Cons)
    with None show ?thesis by simp
  next
    case (Some a)
    obtain x r where a: "a = (x, r)" by (cases a)
    have here: "\<exists>p t r'. c # cs = p @ t \<and> m t = Some (x, r')"
      using Some a by (intro exI [of _ "[]"] exI [of _ "c # cs"] exI [of _ r]) simp
    from 2(4) Some a obtain w where w: "c # cs = w @ r" by blast
    show ?thesis
    proof (cases "length r < Suc (length cs)")
      case True
      have "\<forall>x\<in>set (re_findall m r). \<exists>p t r'. r = p @ t \<and> m t = Some (x, r')"
        using 2(2) [OF Some a [symmetric] True] 2(4) by blast
      then have "\<forall>x\<in>set (re_findall m r). \<exists>p t r'. c # cs = p @ t \<and> m t = Some (x, r')"
        unfolding w by (metis append_assoc)
      with here Some a True show ?thesis by simp
    next
      case False
      have "\<forall>x\<in>set (re_findall m cs). \<exists>p t r. cs = p @ t \<and> m t = Some (x, r)"
        using 2(3) [OF Some a [symmetric] False] 2(4) by blast
      then have "\<forall>x\<in>set (re_findall m cs). \<exists>p t r. c # cs = p @ t \<and> m t = Some (x, r)"
        by (metis append_Cons)
      with here Some a False show ?thesis by simp
    qed
  qed
qed

lemma option_markup_head: "option_markup x @ post = 60 # 111 # tl (tl (option_markup x @ post))"
  by (simp add: option_markup_def OPT_OPEN_def lit_def)

lemma findall_fragment:
  assumes x: "x \<noteq> []" "\<forall>c \<in> set x. is_word ua c"
  shows "re_findall (match_option ua) (pre @ option_markup x @ post)
         = re_findall (match_option ua) pre @ x # re_findall (match_option ua) post"
proof -
  have "re_findall (match_option ua) (pre @ option_markup x @ post)
        = re_findall (match_option ua) pre @ re_findall (match_option ua) (option_markup x @ post)"
    by (rule findall_split [OF option_markup_head]) simp
  moreover have "re_findall (match_option ua) (option_markup x @ post)
        = x # re_findall (match_option ua) post"
    using match_option_markup [OF x] option_markup_length by (rule re_findall_hit)
  ultimately show ?thesis by simp
qed

text \<open>
  C7, as amended. \<open>extract_regions\<close> returns the label of every fragment
  \<^verbatim>\<open><option value="X">X</option>\<close> whose \<open>X\<close> is a non-empty run of word characters, in document
  order and once per occurrence: the labels found before the fragment, the label, the
  labels found after it. A label that occurs in two fragments is returned twice. Every
  label returned comes from such a fragment of the document.
\<close>

theorem extract_regions_per_occurrence:
  "(x \<noteq> [] \<and> (\<forall>c \<in> set x. is_word ua c) \<longrightarrow>
      extract_regions ua (pre @ option_markup x @ post)
      = extract_regions ua pre @ x # extract_regions ua post) \<and>
   (\<forall>y \<in> set (extract_regions ua html_content).
      \<exists>p q. html_content = p @ option_markup y @ q)"
proof (intro conjI impI)
  assume "x \<noteq> [] \<and> (\<forall>c \<in> set x. is_word ua c)"
  then show "extract_regions ua (pre @ option_markup x @ post)
      = extract_regions ua pre @ x # extract_regions ua post"
    by (simp add: extract_regions_def findall_fragment)
next
  have "\<forall>t x r. match_option ua t = Some (x, r) \<longrightarrow> (\<exists>w. t = w @ r)"
    using match_option_sound by blast
  from re_findall_origin [OF this, of html_content]
  have "\<forall>y \<in> set (re_findall (match_option ua) html_content).
          \<exists>p t r. html_content = p @ t \<and> match_option ua t = Some (y, r)" .
  then have "\<forall>y \<in> set (re_findall (match_option ua) html_content).
          \<exists>p r. html_content = p @ option_markup y @ r"
    using match_option_sound by blast
  then show "\<forall>y \<in> set (extract_regions ua html_content).
      \<exists>p q. html_content = p @ option_markup y @ q"
    by (simp add: extract_regions_def)
qed

theorem extract_regions_per_occurrence_witness:
  \<open>extract_regions ascii_only (lit ''<p>'' @ option_markup (lit ''A'') @ option_markup (lit ''A''))
     = [lit ''A'', lit ''A''] \<and>
   (\<exists>p q. lit ''<p><option value="A">A</option><option value="A">A</option>''
      = p @ option_markup (lit ''A'') @ q)\<close>
proof -
  have w: \<open>lit ''A'' \<noteq> [] \<and> (\<forall>c \<in> set (lit ''A''). is_word ascii_only c)\<close>
    by (simp add: lit_def is_word_def)
  have e: \<open>extract_regions ascii_only (lit ''<p>'') = []\<close>
         \<open>extract_regions ascii_only (option_markup (lit ''A'')) = [lit ''A'']\<close>
    by code_simp+
  have d: \<open>extract_regions ascii_only
      (lit ''<p><option value="A">A</option><option value="A">A</option>'') = [lit ''A'', lit ''A'']\<close>
    by code_simp
  note t = extract_regions_per_occurrence [of \<open>lit ''A''\<close> ascii_only \<open>lit ''<p>''\<close>
      \<open>option_markup (lit ''A'')\<close>
      \<open>lit ''<p><option value="A">A</option><option value="A">A</option>''\<close>]
  from t w e have 1: \<open>extract_regions ascii_only
      (lit ''<p>'' @ option_markup (lit ''A'') @ option_markup (lit ''A'')) = [lit ''A'', lit ''A'']\<close>
    by simp
  from t have \<open>\<forall>y \<in> set [lit ''A'', lit ''A''].
      \<exists>p q. lit ''<p><option value="A">A</option><option value="A">A</option>''
        = p @ option_markup y @ q\<close>
    unfolding d by (rule conjunct2)
  then have 2: \<open>\<exists>p q. lit ''<p><option value="A">A</option><option value="A">A</option>''
      = p @ option_markup (lit ''A'') @ q\<close>
    by simp
  from 1 2 show ?thesis by (rule conjI)
qed

text \<open>The claim as stated asks for distinct labels; two equal options give the label twice.\<close>

theorem extract_regions_distinct_counterexample:
  \<open>\<not> distinct (extract_regions ascii_only
        (lit ''<option value="A">A</option><option value="A">A</option>''))\<close>
  by code_simp

subsection \<open>Search and substitution\<close>

lemma re_sub_no_match:
  "re_search m s = None \<Longrightarrow> re_sub m repl s = s"
proof (induction s)
  case Nil
  then show ?case by (cases "m []") auto
next
  case (Cons c cs)
  then show ?case by (cases "m (c # cs)") (auto split: option.splits)
qed

lemma re_search_span:
  "re_search m s = Some (pre, x, post) \<Longrightarrow> \<exists>t. s = pre @ t \<and> m t = Some (x, post)"
proof (induction s arbitrary: pre)
  case Nil
  then show ?case by (cases "m []") auto
next
  case (Cons c cs)
  show ?case
  proof (cases "m (c # cs)")
    case None
    with Cons.prems obtain b where b: "re_search m cs = Some (b, x, post)" "pre = c # b"
      by (auto split: option.splits)
    from Cons.IH [OF b(1)] b(2) show ?thesis by auto
  next
    case (Some a)
    with Cons.prems show ?thesis by (cases a) auto
  qed
qed

lemma re_sub_first:
  assumes "re_search m s = Some (pre, x, post)"
    and "\<And>t y r. m t = Some (y, r) \<Longrightarrow> length r < length t"
  shows "re_sub m repl s = pre @ repl x @ re_sub m repl post"
  using assms(1)
proof (induction s arbitrary: pre)
  case Nil
  then obtain r where "m [] = Some (x, r)" by (cases "m []") auto
  from assms(2) [OF this] show ?case by simp
next
  case (Cons c cs)
  show ?case
  proof (cases "m (c # cs)")
    case None
    with Cons.prems obtain b where b: "re_search m cs = Some (b, x, post)" "pre = c # b"
      by (auto split: option.splits)
    from Cons.IH [OF b(1)] b(2) None show ?thesis by simp
  next
    case (Some a)
    obtain y r where a: "a = (y, r)" by (cases a)
    have "length r < length (c # cs)" using assms(2) Some a by blast
    with Cons.prems Some a show ?thesis by simp
  qed
qed

subsection \<open>Writing the regions\<close>

lemma parse_template_plain: "92 \<notin> set s \<Longrightarrow> parse_template s = Inr (map TLit s)"
  by (induction s) simp_all

lemma expand_lits: "expand (map TLit s) w = s"
  by (induction s) simp_all

lemma join_Cons: "join sep (p # xs) = p @ concat (map (\<lambda>x. sep @ x) xs)"
  by (induction xs arbitrary: p) simp_all

lemma new_select_unfold:
  "new_select regions =
     SEL_OPEN @ nl_indent 20 @ PLACEHOLDER
     @ concat (map (\<lambda>r. nl_indent 20 @ option_markup r) (sort regions))
     @ nl_indent 16 @ SEL_CLOSE"
  by (simp add: new_select_def options_def join_Cons map_concat comp_def)

lemma fixed_no_backslash:
  "92 \<notin> set SEL_OPEN" "92 \<notin> set SEL_CLOSE" "92 \<notin> set PLACEHOLDER" "92 \<notin> set (nl_indent n)"
  "92 \<notin> set OPT_OPEN" "92 \<notin> set OPT_CLOSE" "92 \<notin> set QUOTE_GT"
  by (simp_all add: SEL_OPEN_def SEL_CLOSE_def PLACEHOLDER_def nl_indent_def OPT_OPEN_def
      OPT_CLOSE_def QUOTE_GT_def lit_def)

lemma new_select_no_backslash:
  assumes "\<forall>r \<in> set regions. 92 \<notin> set r"
  shows "92 \<notin> set (new_select regions)"
  using assms by (auto simp: new_select_unfold option_markup_def fixed_no_backslash)

lemma match_select_sound:
  assumes "match_select t = Some (w, r)"
  shows "t = w @ r \<and> (\<exists>mid. w = SEL_OPEN @ mid @ SEL_CLOSE)"
proof -
  from assms obtain r1 where r1: "strip_prefix SEL_OPEN t = Some r1"
    by (cases "strip_prefix SEL_OPEN t") (simp_all add: match_select_def)
  from assms r1 obtain mid rest where f: "find_lit SEL_CLOSE r1 = Some (mid, rest)"
    by (cases "find_lit SEL_CLOSE r1") (auto simp: match_select_def)
  from assms r1 f have "w = SEL_OPEN @ mid @ SEL_CLOSE" "r = rest"
    by (simp_all add: match_select_def)
  moreover have "t = SEL_OPEN @ r1" using r1 by (simp add: strip_prefix_iff)
  moreover have "r1 = mid @ SEL_CLOSE @ rest" using f by (rule find_lit_sound)
  ultimately show ?thesis by simp
qed

lemma match_select_shorter: "match_select t = Some (w, r) \<Longrightarrow> length r < length t"
  by (auto dest!: match_select_sound simp: SEL_OPEN_def lit_def)

lemma update_regions_plain:
  assumes "\<forall>r \<in> set regions. 92 \<notin> set r"
  shows "update_regions_in_html html_content regions
         = (re_sub match_select (\<lambda>w. new_select regions) html_content, None)"
proof -
  have "parse_template (new_select regions) = Inr (map TLit (new_select regions))"
    using assms by (intro parse_template_plain new_select_no_backslash)
  then show ?thesis
    by (simp add: update_regions_in_html_def expand_lits [abs_def])
qed

lemma update_regions_first:
  assumes "\<forall>r \<in> set regions. 92 \<notin> set r"
    and "re_search match_select html_content = Some (pre, blk, post)"
  shows "fst (update_regions_in_html html_content regions)
         = pre @ new_select regions @ fst (update_regions_in_html post regions)"
  using re_sub_first [OF assms(2) match_select_shorter, where repl = "\<lambda>w. new_select regions"]
  by (simp add: update_regions_plain [OF assms(1)])

text \<open>
  The block built for a list of categories is the opening tag, the fixed placeholder
  option, then one option per category in lexicographically sorted order, then the closing
  tag. When no label holds a backslash, that block replaces the first selection block of
  the document, whatever that block held.
\<close>

lemma update_regions_plain_labels:
  "new_select regions =
     SEL_OPEN @ nl_indent 20 @ PLACEHOLDER
     @ concat (map (\<lambda>r. nl_indent 20 @ option_markup r) (sort regions))
     @ nl_indent 16 @ SEL_CLOSE \<and>
   sorted (sort regions) \<and> mset (sort regions) = mset regions \<and>
   sort [lit ''West'', lit ''East''] = [lit ''East'', lit ''West''] \<and>
   ((\<forall>r \<in> set regions. 92 \<notin> set r) \<and>
    re_search match_select html_content = Some (pre, blk, post) \<longrightarrow>
      fst (update_regions_in_html html_content regions)
      = pre @ new_select regions @ fst (update_regions_in_html post regions))"
proof (intro conjI impI)
  show "sort [lit ''West'', lit ''East''] = [lit ''East'', lit ''West'']"
    by (simp add: lit_def)
next
  assume "(\<forall>r \<in> set regions. 92 \<notin> set r) \<and>
    re_search match_select html_content = Some (pre, blk, post)"
  then show "fst (update_regions_in_html html_content regions)
      = pre @ new_select regions @ fst (update_regions_in_html post regions)"
    using update_regions_first by blast
qed (simp_all add: new_select_unfold)

lemma update_regions_plain_labels_example:
  \<open>fst (update_regions_in_html
     (lit ''<div><select class="area-select" id="areaSelect"><option value="Old">Old</option></select></div>'')
     [lit ''West'', lit ''East''])
   = lit ''<div>'' @ SEL_OPEN @ nl_indent 20 @ PLACEHOLDER
     @ nl_indent 20 @ lit ''<option value="East">East</option>''
     @ nl_indent 20 @ lit ''<option value="West">West</option>''
     @ nl_indent 16 @ SEL_CLOSE @ lit ''</div>''\<close>
proof -
  let ?doc = \<open>lit ''<div><select class="area-select" id="areaSelect"><option value="Old">Old</option></select></div>''\<close>
  let ?blk = \<open>lit ''<select class="area-select" id="areaSelect"><option value="Old">Old</option></select>''\<close>
  let ?rs = \<open>[lit ''West'', lit ''East'']\<close>
  have h1: \<open>\<forall>r \<in> set ?rs. 92 \<notin> set r\<close> by (simp add: lit_def)
  have h2: \<open>re_search match_select ?doc = Some (lit ''<div>'', ?blk, lit ''</div>'')\<close>
    by code_simp
  have p: \<open>fst (update_regions_in_html (lit ''</div>'') ?rs) = lit ''</div>''\<close>
    by code_simp
  have s: \<open>sort ?rs = [lit ''East'', lit ''West'']\<close> by (simp add: lit_def)
  have o: \<open>option_markup (lit ''East'') = lit ''<option value="East">East</option>''\<close>
          \<open>option_markup (lit ''West'') = lit ''<option value="West">West</option>''\<close>
    by code_simp+
  from update_regions_plain_labels [of ?rs ?doc \<open>lit ''<div>''\<close> ?blk \<open>lit ''</div>''\<close>] h1 h2
  have \<open>fst (update_regions_in_html ?doc ?rs)
        = lit ''<div>'' @ new_select ?rs @ fst (update_regions_in_html (lit ''</div>'') ?rs)\<close>
    by blast
  then show ?thesis
    by (simp only: p new_select_unfold s o list.map concat.simps append_Nil2 append_assoc)
qed

text \<open>
  C6. The claim asks that for every list of categories the selection block written has the
  placeholder and then one option per category, in sorted order. The code builds that
  block, but hands it to \<open>re.sub\<close> as a replacement template, so a backslash in a label is
  read as an escape: for the one label \<^verbatim>\<open>X\101\<close> the option written is that of \<open>XA\<close>, and
  for the one label \<^verbatim>\<open>a\d\<close> the document is returned as it was and an exception is
  reported.
\<close>

theorem update_regions_backslash_label:
  \<open>update_regions_in_html (lit ''<select class="area-select" id="areaSelect"></select>'')
     [lit ''X'' @ [92] @ lit ''101'']
   = (SEL_OPEN @ nl_indent 20 @ PLACEHOLDER
      @ nl_indent 20 @ lit ''<option value="XA">XA</option>''
      @ nl_indent 16 @ SEL_CLOSE, None) \<and>
   update_regions_in_html (lit ''<select class="area-select" id="areaSelect"></select>'')
     [lit ''a'' @ [92] @ lit ''d'']
   = (lit ''<select class="area-select" id="areaSelect"></select>'', Some BadTemplate)\<close>
  by code_simp

subsection \<open>Reading back the regions written\<close>














subsection \<open>Writing the dealers\<close>

lemma find_lit_complete: "find_lit p (mid @ p @ rest) \<noteq> None"
proof (induction mid)
  case Nil
  have sp: "strip_prefix p (p @ rest) = Some rest" by simp
  show ?case
  proof (cases "p @ rest")
    case Nil
    then show ?thesis by simp
  next
    case (Cons a list)
    with sp show ?thesis by simp
  qed
next
  case (Cons c mid)
  then show ?case by (cases "strip_prefix p (c # mid @ p @ rest)") auto
qed

lemma match_dealers_sound:
  assumes "match_dealers t = Some (w, r)"
  shows "t = w @ r \<and> (\<exists>mid. w = STMT_OPEN @ mid @ STMT_CLOSE)"
proof -
  from assms obtain r1 where r1: "strip_prefix STMT_OPEN t = Some r1"
    by (cases "strip_prefix STMT_OPEN t") (simp_all add: match_dealers_def)
  from assms r1 obtain mid rest where f: "find_lit STMT_CLOSE r1 = Some (mid, rest)"
    by (cases "find_lit STMT_CLOSE r1") (auto simp: match_dealers_def)
  from assms r1 f have "w = STMT_OPEN @ mid @ STMT_CLOSE" "r = rest"
    by (simp_all add: match_dealers_def)
  moreover have "t = STMT_OPEN @ r1" using r1 by (simp add: strip_prefix_iff)
  moreover have "r1 = mid @ STMT_CLOSE @ rest" using f by (rule find_lit_sound)
  ultimately show ?thesis by simp
qed

lemma match_dealers_shorter: "match_dealers t = Some (w, r) \<Longrightarrow> length r < length t"
  by (auto dest!: match_dealers_sound simp: STMT_OPEN_def lit_def)

lemma match_dealers_complete: "match_dealers (STMT_OPEN @ mid @ STMT_CLOSE @ post) \<noteq> None"
  using find_lit_complete [of STMT_CLOSE mid post]
  by (auto simp: match_dealers_def)

lemma re_search_complete: "m t \<noteq> None \<Longrightarrow> re_search m (pre @ t) \<noteq> None"
proof (induction pre)
  case Nil
  then show ?case by (cases t) auto
next
  case (Cons c pre)
  then show ?case by (cases "m (c # pre @ t)") auto
qed

lemma dealers_statement_iff:
  "re_search match_dealers html_content = None \<longleftrightarrow>
   \<not> (\<exists>pre mid post. html_content = pre @ STMT_OPEN @ mid @ STMT_CLOSE @ post)"
proof
  assume n: "re_search match_dealers html_content = None"
  show "\<not> (\<exists>pre mid post. html_content = pre @ STMT_OPEN @ mid @ STMT_CLOSE @ post)"
  proof
    assume "\<exists>pre mid post. html_content = pre @ STMT_OPEN @ mid @ STMT_CLOSE @ post"
    then obtain pre mid post where "html_content = pre @ STMT_OPEN @ mid @ STMT_CLOSE @ post"
      by blast
    with re_search_complete [of match_dealers "STMT_OPEN @ mid @ STMT_CLOSE @ post" pre]
      match_dealers_complete [of mid post] n
    show False by simp
  qed
next
  assume a: "\<not> (\<exists>pre mid post. html_content = pre @ STMT_OPEN @ mid @ STMT_CLOSE @ post)"
  show "re_search match_dealers html_content = None"
  proof (cases "re_search match_dealers html_content")
    case (Some p)
    obtain pre w post where "p = (pre, w, post)" by (cases p)
    with Some re_search_span [of match_dealers html_content pre w post]
    obtain t where "html_content = pre @ t" "match_dealers t = Some (w, post)" by auto
    with match_dealers_sound [of t w post]
    obtain mid where "html_content = pre @ STMT_OPEN @ mid @ STMT_CLOSE @ post" by auto
    with a show ?thesis by blast
  qed simp
qed

text \<open>
  C4. A document with no span \<^verbatim>\<open>const dealersData = [\<close> \<open>\<dots>\<close> \<^verbatim>\<open>];\<close> is returned by
  \<open>update_dealers_in_html\<close> as it is, whatever the records.
\<close>

theorem update_dealers_missing_statement:
  assumes "\<not> (\<exists>pre mid post. html_content = pre @ STMT_OPEN @ mid @ STMT_CLOSE @ post)"
  shows "fst (update_dealers_in_html html_content dealers_data) = html_content"
proof -
  have "re_search match_dealers html_content = None"
    unfolding dealers_statement_iff using assms .
  then show ?thesis
    by (cases "parse_template (new_data dealers_data)")
       (simp_all add: update_dealers_in_html_def re_sub_no_match)
qed

theorem update_dealers_missing_statement_witness:
  \<open>fst (update_dealers_in_html (lit ''<script>const dealers = [];</script>'')
      (JArr [JObj [(lit ''name'', JStr (lit ''A''))]]))
   = lit ''<script>const dealers = [];</script>''\<close>
proof -
  have \<open>re_search match_dealers (lit ''<script>const dealers = [];</script>'') = None\<close>
    by code_simp
  then have \<open>\<not> (\<exists>pre mid post. lit ''<script>const dealers = [];</script>''
      = pre @ STMT_OPEN @ mid @ STMT_CLOSE @ post)\<close>
    unfolding dealers_statement_iff .
  then show ?thesis by (rule update_dealers_missing_statement)
qed

lemma strip_prefix_extend:
  "length p \<le> length s \<Longrightarrow> strip_prefix p (s @ t) = map_option (\<lambda>r. r @ t) (strip_prefix p s)"
  by (induction p s rule: strip_prefix.induct) auto

lemma find_lit_here: "find_lit p (p @ t) = Some ([], t)"
proof (cases "p @ t")
  case Nil
  then show ?thesis by simp
next
  case (Cons c cs)
  have "strip_prefix p (p @ t) = Some t" by simp
  with Cons show ?thesis by simp
qed

lemma STMT_CLOSE_unfold: "STMT_CLOSE = [93, 59]"
  by (simp add: STMT_CLOSE_def lit_def)

lemma match_dealers_Nil: "match_dealers [] = None"
  by (simp add: match_dealers_def STMT_OPEN_def lit_def)

lemma find_lit_close_lazy:
  "find_lit STMT_CLOSE s = Some (mid, r) \<Longrightarrow> \<not> (\<exists>a b. mid @ [93] = a @ STMT_CLOSE @ b)"
proof (induction s arbitrary: mid)
  case Nil
  then show ?case by (simp add: STMT_CLOSE_unfold)
next
  case (Cons c cs)
  show ?case
  proof (cases "strip_prefix STMT_CLOSE (c # cs)")
    case (Some r')
    with Cons.prems have "mid = []" by simp
    then show ?thesis by (auto simp: STMT_CLOSE_unfold Cons_eq_append_conv)
  next
    case None
    with Cons.prems obtain mid' where f: "find_lit STMT_CLOSE cs = Some (mid', r)" and m: "mid = c # mid'"
      by (cases "find_lit STMT_CLOSE cs") auto
    have ih: "\<not> (\<exists>a b. mid' @ [93] = a @ STMT_CLOSE @ b)" using f by (rule Cons.IH)
    have cs: "cs = mid' @ STMT_CLOSE @ r" using f by (rule find_lit_sound)
    show ?thesis
    proof
      assume "\<exists>a b. mid @ [93] = a @ STMT_CLOSE @ b"
      then obtain a b where ab: "c # mid' @ [93] = a @ STMT_CLOSE @ b" using m by auto
      show False
      proof (cases a)
        case Nil
        with ab have c: "c = 93" and t: "mid' @ [93] = 59 # b" by (simp_all add: STMT_CLOSE_unfold)
        from t obtain m2 where "mid' = 59 # m2" by (cases mid') auto
        with c cs have "strip_prefix STMT_CLOSE (c # cs) = Some (m2 @ STMT_CLOSE @ r)"
          by (simp add: STMT_CLOSE_unfold)
        with None show False by simp
      next
        case (Cons x a')
        with ab have "mid' @ [93] = a' @ STMT_CLOSE @ b" by simp
        with ih show False by blast
      qed
    qed
  qed
qed

lemma lazy_find_lit_close:
  "\<not> (\<exists>a b. mid @ [93] = a @ STMT_CLOSE @ b) \<Longrightarrow>
   find_lit STMT_CLOSE (mid @ STMT_CLOSE @ s) = Some (mid, s)"
proof (induction mid)
  case Nil
  show ?case using find_lit_here [of STMT_CLOSE s] by simp
next
  case (Cons c mid)
  have "\<not> (\<exists>a b. mid @ [93] = a @ STMT_CLOSE @ b)"
  proof
    assume "\<exists>a b. mid @ [93] = a @ STMT_CLOSE @ b"
    then obtain a b where "mid @ [93] = a @ STMT_CLOSE @ b" by blast
    then have "(c # mid) @ [93] = (c # a) @ STMT_CLOSE @ b" by simp
    with Cons.prems show False by blast
  qed
  then have ih: "find_lit STMT_CLOSE (mid @ STMT_CLOSE @ s) = Some (mid, s)" by (rule Cons.IH)
  have "strip_prefix STMT_CLOSE (c # mid @ STMT_CLOSE @ s) = None"
  proof (cases "strip_prefix STMT_CLOSE (c # mid @ STMT_CLOSE @ s)")
    case (Some r')
    then have "c # mid @ STMT_CLOSE @ s = STMT_CLOSE @ r'" by (simp add: strip_prefix_iff)
    then have c: "c = 93" and t: "mid @ STMT_CLOSE @ s = 59 # r'" by (simp_all add: STMT_CLOSE_unfold)
    from t obtain m2 where "mid = 59 # m2" by (cases mid) (auto simp: STMT_CLOSE_unfold)
    with c have "(c # mid) @ [93] = [] @ STMT_CLOSE @ (m2 @ [93])" by (simp add: STMT_CLOSE_unfold)
    with Cons.prems show ?thesis by blast
  qed simp
  with ih show ?case by simp
qed

lemma match_dealers_lazy:
  assumes "match_dealers t = Some (w, r)"
  shows "\<exists>mid. t = STMT_OPEN @ mid @ STMT_CLOSE @ r \<and> w = STMT_OPEN @ mid @ STMT_CLOSE
           \<and> \<not> (\<exists>a b. mid @ [93] = a @ STMT_CLOSE @ b)"
proof -
  from assms obtain r1 where r1: "strip_prefix STMT_OPEN t = Some r1"
    by (cases "strip_prefix STMT_OPEN t") (simp_all add: match_dealers_def)
  from assms r1 obtain mid rest where f: "find_lit STMT_CLOSE r1 = Some (mid, rest)"
    by (cases "find_lit STMT_CLOSE r1") (auto simp: match_dealers_def)
  from assms r1 f have w: "w = STMT_OPEN @ mid @ STMT_CLOSE" "r = rest"
    by (simp_all add: match_dealers_def)
  have "t = STMT_OPEN @ r1" using r1 by (simp add: strip_prefix_iff)
  moreover have "r1 = mid @ STMT_CLOSE @ rest" using f by (rule find_lit_sound)
  moreover have "\<not> (\<exists>a b. mid @ [93] = a @ STMT_CLOSE @ b)" using f by (rule find_lit_close_lazy)
  ultimately show ?thesis using w by auto
qed

lemma match_dealers_at_span:
  assumes "\<not> (\<exists>a b. mid @ [93] = a @ STMT_CLOSE @ b)"
  shows "match_dealers (STMT_OPEN @ mid @ STMT_CLOSE @ s) = Some (STMT_OPEN @ mid @ STMT_CLOSE, s)"
  using lazy_find_lit_close [OF assms, of s] by (simp add: match_dealers_def)

lemma match_dealers_none_iff:
  "match_dealers t = None \<longleftrightarrow> \<not> (\<exists>mid rest. t = STMT_OPEN @ mid @ STMT_CLOSE @ rest)"
proof
  assume n: "match_dealers t = None"
  show "\<not> (\<exists>mid rest. t = STMT_OPEN @ mid @ STMT_CLOSE @ rest)"
  proof
    assume "\<exists>mid rest. t = STMT_OPEN @ mid @ STMT_CLOSE @ rest"
    then obtain mid rest where "t = STMT_OPEN @ mid @ STMT_CLOSE @ rest" by blast
    with match_dealers_complete [of mid rest] n show False by simp
  qed
next
  assume a: "\<not> (\<exists>mid rest. t = STMT_OPEN @ mid @ STMT_CLOSE @ rest)"
  show "match_dealers t = None"
  proof (cases "match_dealers t")
    case (Some p)
    obtain w r where "p = (w, r)" by (cases p)
    with Some match_dealers_lazy [of t w r] a show ?thesis by blast
  qed simp
qed

lemma re_sub_only_spans: "only_spans_changed new s (re_sub match_dealers new s)"
proof (induction "length s" arbitrary: s rule: less_induct)
  case less
  show ?case
  proof (cases s)
    case Nil
    then show ?thesis by (simp add: match_dealers_Nil finish)
  next
    case (Cons c cs)
    show ?thesis
    proof (cases "match_dealers (c # cs)")
      case None
      then have "\<not> (\<exists>mid rest. c # cs = STMT_OPEN @ mid @ STMT_CLOSE @ rest)"
        by (rule iffD1 [OF match_dealers_none_iff])
      moreover have "only_spans_changed new cs (re_sub match_dealers new cs)"
        using less [of cs] Cons by simp
      ultimately have "only_spans_changed new (c # cs) (c # re_sub match_dealers new cs)"
        by (rule keep)
      with None Cons show ?thesis by simp
    next
      case (Some p)
      obtain w r where p: "p = (w, r)" by (cases p)
      from match_dealers_lazy [of "c # cs" w r] Some p
      obtain mid where m: "c # cs = STMT_OPEN @ mid @ STMT_CLOSE @ r" "w = STMT_OPEN @ mid @ STMT_CLOSE"
        and lz: "\<not> (\<exists>a b. mid @ [93] = a @ STMT_CLOSE @ b)" by auto
      have l: "length r < length (c # cs)" using Some p by (intro match_dealers_shorter) simp
      then have "only_spans_changed new r (re_sub match_dealers new r)"
        using less Cons by simp
      with lz have "only_spans_changed new (STMT_OPEN @ mid @ STMT_CLOSE @ r)
          (new (STMT_OPEN @ mid @ STMT_CLOSE) @ re_sub match_dealers new r)"
        by (rule span)
      moreover have "re_sub match_dealers new (c # cs) = new w @ re_sub match_dealers new r"
        using Some p l by simp
      ultimately show ?thesis using Cons m by simp
    qed
  qed
qed

lemma only_spans_unique: "only_spans_changed new s t \<Longrightarrow> t = re_sub match_dealers new s"
proof (induction rule: only_spans_changed.induct)
  case finish
  show ?case by (simp add: match_dealers_Nil)
next
  case (keep c s t)
  from keep(1) have "match_dealers (c # s) = None" by (rule iffD2 [OF match_dealers_none_iff])
  with keep(3) show ?case by simp
next
  case (span mid s t)
  have m: "match_dealers (STMT_OPEN @ mid @ STMT_CLOSE @ s) = Some (STMT_OPEN @ mid @ STMT_CLOSE, s)"
    using span(1) by (rule match_dealers_at_span)
  obtain c cs where cs: "STMT_OPEN @ mid @ STMT_CLOSE @ s = c # cs"
    by (cases "STMT_OPEN @ mid @ STMT_CLOSE @ s") (simp_all add: STMT_OPEN_def lit_def)
  have l: "length s < Suc (length cs)"
    using match_dealers_shorter [OF m] cs by simp
  from m cs l have "re_sub match_dealers new (STMT_OPEN @ mid @ STMT_CLOSE @ s)
      = new (STMT_OPEN @ mid @ STMT_CLOSE) @ re_sub match_dealers new s"
    by simp
  with span(3) show ?case by simp
qed

lemma re_sub_same: "re_sub match_dealers (\<lambda>w. w) s = s"
proof (induction "length s" arbitrary: s rule: less_induct)
  case less
  show ?case
  proof (cases s)
    case Nil
    then show ?thesis by (simp add: match_dealers_Nil)
  next
    case (Cons c cs)
    show ?thesis
    proof (cases "match_dealers (c # cs)")
      case None
      with Cons less [of cs] show ?thesis by simp
    next
      case (Some p)
      obtain w r where p: "p = (w, r)" by (cases p)
      from match_dealers_sound [of "c # cs" w r] Some p have m: "c # cs = w @ r" by simp
      have l: "length r < length (c # cs)" using Some p by (intro match_dealers_shorter) simp
      then have ih: "re_sub match_dealers (\<lambda>w. w) r = r" using less Cons by simp
      have "re_sub match_dealers (\<lambda>w. w) (c # cs) = w @ re_sub match_dealers (\<lambda>w. w) r"
        using Some p l by simp
      with ih m Cons show ?thesis by simp
    qed
  qed
qed

lemma update_dealers_as_re_sub:
  "fst (update_dealers_in_html html_content dealers_data)
   = re_sub match_dealers (span_written dealers_data) html_content"
proof (cases "parse_template (new_data dealers_data)")
  case (Inl e)
  then have "span_written dealers_data = (\<lambda>w. w)" by (simp add: span_written_def fun_eq_iff)
  with Inl show ?thesis by (simp add: update_dealers_in_html_def re_sub_same)
next
  case (Inr t)
  then have "span_written dealers_data = expand t" by (simp add: span_written_def fun_eq_iff)
  with Inr show ?thesis by (simp add: update_dealers_in_html_def)
qed

text \<open>
  C10. Whatever the document and the records, \<open>update_dealers_in_html\<close> changes only the
  spans that the pattern \<^verbatim>\<open>const dealersData = \[[\s\S]*?\];\<close> matches: its result is the
  document with each such span (leftmost first, each ending at the first \<^verbatim>\<open>];\<close> behind its
  opening) replaced and every character outside those spans kept, and it is the only text
  of that kind.
\<close>

theorem update_dealers_frame:
  "only_spans_changed (span_written dealers_data) html_content
     (fst (update_dealers_in_html html_content dealers_data)) \<and>
   (\<forall>t. only_spans_changed (span_written dealers_data) html_content t \<longrightarrow>
      t = fst (update_dealers_in_html html_content dealers_data))"
  unfolding update_dealers_as_re_sub
  using re_sub_only_spans only_spans_unique by blast

theorem update_dealers_frame_witness:
  \<open>fst (update_dealers_in_html (lit ''<a> const dealersData = [1]; var keep = [2]; </a>'') (JArr []))
     = lit ''<a> const dealersData = []; var keep = [2]; </a>'' \<and>
   only_spans_changed (span_written (JArr []))
     (lit ''<a> const dealersData = [1]; var keep = [2]; </a>'')
     (lit ''<a> const dealersData = []; var keep = [2]; </a>'') \<and>
   \<not> only_spans_changed (span_written (JArr []))
     (lit ''<a> const dealersData = [1]; var keep = [2]; </a>'')
     (lit ''<a> const dealersData = []; </a>'')\<close>
proof -
  let ?doc = \<open>lit ''<a> const dealersData = [1]; var keep = [2]; </a>''\<close>
  have e: \<open>fst (update_dealers_in_html ?doc (JArr []))
     = lit ''<a> const dealersData = []; var keep = [2]; </a>''\<close>
    by code_simp
  have d: \<open>lit ''<a> const dealersData = []; </a>'' \<noteq> lit ''<a> const dealersData = []; var keep = [2]; </a>''\<close>
    by (simp add: lit_def)
  note t = update_dealers_frame [of \<open>JArr []\<close> ?doc, unfolded e]
  from t have 1: \<open>only_spans_changed (span_written (JArr [])) ?doc
     (lit ''<a> const dealersData = []; var keep = [2]; </a>'')\<close>
    by (rule conjunct1)
  from t d have 2: \<open>\<not> only_spans_changed (span_written (JArr [])) ?doc
     (lit ''<a> const dealersData = []; </a>'')\<close>
    by blast
  from e 1 2 show ?thesis by simp
qed

subsection \<open>Reading the dealers\<close>

lemma find_lit_extend:
  "find_lit p (u @ p) = Some (u, []) \<Longrightarrow> find_lit p (u @ p @ t) = Some (u, t)"
proof (induction u)
  case Nil
  show ?case using find_lit_here [of p t] by simp
next
  case (Cons c u)
  have n: "strip_prefix p (c # u @ p) = None"
    using Cons.prems by (cases "strip_prefix p (c # u @ p)") auto
  with Cons.prems have "find_lit p (u @ p) = Some (u, [])"
    by (cases "find_lit p (u @ p)") auto
  then have ih: "find_lit p (u @ p @ t) = Some (u, t)" by (rule Cons.IH)
  have "strip_prefix p ((c # u @ p) @ t) = None"
    using n by (subst strip_prefix_extend) simp_all
  with ih show ?case by simp
qed

lemma re_search_first_lit:
  assumes first: "find_lit p (u @ p) = Some (u, [])"
    and lit: "\<And>s. strip_prefix p s = None \<Longrightarrow> m s = None"
    and hit: "m (p @ t) = Some (x, r)"
  shows "re_search m (u @ p @ t) = Some (u, x, r)"
  using first
proof (induction u)
  case Nil
  show ?case using hit by (cases "p @ t") auto
next
  case (Cons c u)
  have n: "strip_prefix p (c # u @ p) = None"
    using Cons.prems by (cases "strip_prefix p (c # u @ p)") auto
  with Cons.prems have "find_lit p (u @ p) = Some (u, [])"
    by (cases "find_lit p (u @ p)") auto
  then have ih: "re_search m (u @ p @ t) = Some (u, x, r)" by (rule Cons.IH)
  have "strip_prefix p ((c # u @ p) @ t) = None"
    using n by (subst strip_prefix_extend) simp_all
  then have "m (c # u @ p @ t) = None" using lit by simp
  with ih show ?case by simp
qed

lemma match_dealers_group_miss: "strip_prefix STMT_OPEN s = None \<Longrightarrow> match_dealers_group s = None"
  by (simp add: match_dealers_group_def)

lemma match_dealers_group_hit:
  assumes "find_lit STMT_CLOSE (mid @ STMT_CLOSE) = Some (mid, [])"
  shows "match_dealers_group (STMT_OPEN @ mid @ STMT_CLOSE @ post) = Some (91 # mid @ [93], post)"
  using find_lit_extend [OF assms, of post] by (simp add: match_dealers_group_def)

lemma extract_dealers_first:
  assumes "find_lit STMT_OPEN (pre @ STMT_OPEN) = Some (pre, [])"
    and "find_lit STMT_CLOSE (mid @ STMT_CLOSE) = Some (mid, [])"
  shows "extract_dealers_data ua (pre @ STMT_OPEN @ mid @ STMT_CLOSE @ post)
         = (case json_loads (clean_up ua (91 # mid @ [93])) of
              Inl e \<Rightarrow> (JArr [], Some e) | Inr dealers \<Rightarrow> (dealers, None))"
proof -
  have "re_search match_dealers_group (pre @ STMT_OPEN @ mid @ STMT_CLOSE @ post)
        = Some (pre, 91 # mid @ [93], post)"
    using assms(1)
  proof (rule re_search_first_lit)
    show "match_dealers_group (STMT_OPEN @ mid @ STMT_CLOSE @ post) = Some (91 # mid @ [93], post)"
      using assms(2) by (rule match_dealers_group_hit)
  qed (rule match_dealers_group_miss)
  then show ?thesis by (simp add: extract_dealers_data_def)
qed

lemma example_statement:
  \<open>lit ''const dealersData = [{name:"A",contact:"1",rating:"5",regions:["X"],paddyTypes:[{name:"Rice",price:"100",unit:"per quintal"}]}];''
   = STMT_OPEN @ EXAMPLE_BODY @ STMT_CLOSE\<close>
  by (simp add: STMT_OPEN_def STMT_CLOSE_def EXAMPLE_BODY_def lit_def)

lemma example_close: "find_lit STMT_CLOSE (EXAMPLE_BODY @ STMT_CLOSE) = Some (EXAMPLE_BODY, [])"
  by code_simp

lemma example_loads: "json_loads (clean_up ua (91 # EXAMPLE_BODY @ [93])) = Inr EXAMPLE_RECORDS"
  by code_simp

text \<open>
  C3. Let the document contain the statement of the example, with no earlier occurrence
  of \<^verbatim>\<open>const dealersData = [\<close> before it. Then \<open>extract_dealers_data\<close> returns one record,
  whose name is \<open>A\<close> and whose regions are \<open>["X"]\<close> (the whole record is as written in
  the statement), and reports nothing.
\<close>

theorem extract_dealers_example:
  assumes "find_lit STMT_OPEN (pre @ STMT_OPEN) = Some (pre, [])"
  shows \<open>extract_dealers_data ua
     (pre @ lit ''const dealersData = [{name:"A",contact:"1",rating:"5",regions:["X"],paddyTypes:[{name:"Rice",price:"100",unit:"per quintal"}]}];'' @ post)
   = (JArr [JObj [(lit ''name'', JStr (lit ''A'')), (lit ''contact'', JStr (lit ''1'')),
       (lit ''rating'', JStr (lit ''5'')), (lit ''regions'', JArr [JStr (lit ''X'')]),
       (lit ''paddyTypes'', JArr [JObj [(lit ''name'', JStr (lit ''Rice'')),
          (lit ''price'', JStr (lit ''100'')), (lit ''unit'', JStr (lit ''per quintal''))]])]], None)\<close>
  using extract_dealers_first [OF assms example_close, of ua post]
  by (simp only: example_statement example_loads append_assoc sum.case EXAMPLE_RECORDS_def)

theorem extract_dealers_example_witness:
  \<open>extract_dealers_data ascii_only
     (lit ''<script>'' @ lit ''const dealersData = [{name:"A",contact:"1",rating:"5",regions:["X"],paddyTypes:[{name:"Rice",price:"100",unit:"per quintal"}]}];'' @ lit ''</script>'')
   = (JArr [JObj [(lit ''name'', JStr (lit ''A'')), (lit ''contact'', JStr (lit ''1'')),
       (lit ''rating'', JStr (lit ''5'')), (lit ''regions'', JArr [JStr (lit ''X'')]),
       (lit ''paddyTypes'', JArr [JObj [(lit ''name'', JStr (lit ''Rice'')),
          (lit ''price'', JStr (lit ''100'')), (lit ''unit'', JStr (lit ''per quintal''))]])]], None)\<close>
proof -
  have \<open>find_lit STMT_OPEN (lit ''<script>'' @ STMT_OPEN) = Some (lit ''<script>'', [])\<close>
    by code_simp
  then show ?thesis by (rule extract_dealers_example)
qed

lemma match_dealers_group_None: "match_dealers_group s = None \<longleftrightarrow> match_dealers s = None"
  by (simp add: match_dealers_group_def match_dealers_def split: option.splits)

lemma re_search_None_cong:
  assumes "\<forall>t. m1 t = None \<longleftrightarrow> m2 t = None"
  shows "re_search m1 s = None \<longleftrightarrow> re_search m2 s = None"
proof (induction s)
  case Nil
  from assms have "m1 [] = None \<longleftrightarrow> m2 [] = None" by blast
  then show ?case by (cases "m1 []"; cases "m2 []") auto
next
  case (Cons c cs)
  from assms have "m1 (c # cs) = None \<longleftrightarrow> m2 (c # cs) = None" by blast
  with Cons show ?case
    by (cases "m1 (c # cs)"; cases "m2 (c # cs)") auto
qed

lemma dealers_group_statement_iff:
  "re_search match_dealers_group html_content = None \<longleftrightarrow>
   \<not> (\<exists>pre mid post. html_content = pre @ STMT_OPEN @ mid @ STMT_CLOSE @ post)"
proof -
  have "\<forall>t. match_dealers_group t = None \<longleftrightarrow> match_dealers t = None"
    by (simp add: match_dealers_group_None)
  from re_search_None_cong [OF this, of html_content] show ?thesis
    by (simp only: dealers_statement_iff)
qed

text \<open>
  C5, as amended. When the document has no span \<^verbatim>\<open>const dealersData = [\<close> \<open>\<dots>\<close> \<^verbatim>\<open>];\<close>,
  \<open>extract_dealers_data\<close> returns the empty list and reports nothing. When the statement
  is found and the cleaned-up array literal does not parse, it returns the empty list and
  reports the exception. It raises in neither case.
\<close>

theorem extract_dealers_failure:
  "(\<not> (\<exists>pre mid post. html_content = pre @ STMT_OPEN @ mid @ STMT_CLOSE @ post) \<longrightarrow>
      extract_dealers_data ua html_content = (JArr [], None)) \<and>
   (re_search match_dealers_group html_content = Some (before, dealers_str, after) \<and>
    json_loads (clean_up ua dealers_str) = Inl e \<longrightarrow>
      extract_dealers_data ua html_content = (JArr [], Some e))"
proof (intro conjI impI)
  assume "\<not> (\<exists>pre mid post. html_content = pre @ STMT_OPEN @ mid @ STMT_CLOSE @ post)"
  then have "re_search match_dealers_group html_content = None"
    unfolding dealers_group_statement_iff .
  then show "extract_dealers_data ua html_content = (JArr [], None)"
    by (simp add: extract_dealers_data_def)
next
  assume "re_search match_dealers_group html_content = Some (before, dealers_str, after) \<and>
    json_loads (clean_up ua dealers_str) = Inl e"
  then show "extract_dealers_data ua html_content = (JArr [], Some e)"
    by (simp add: extract_dealers_data_def)
qed

theorem extract_dealers_failure_witness:
  \<open>extract_dealers_data ascii_only (lit ''<html></html>'') = (JArr [], None) \<and>
   extract_dealers_data ascii_only (lit ''const dealersData = [{name:}];'')
     = (JArr [], Some JSONDecodeError)\<close>
proof -
  have \<open>re_search match_dealers_group (lit ''<html></html>'') = None\<close> by code_simp
  then have 1: \<open>\<not> (\<exists>pre mid post. lit ''<html></html>'' = pre @ STMT_OPEN @ mid @ STMT_CLOSE @ post)\<close>
    unfolding dealers_group_statement_iff .
  have 2: \<open>re_search match_dealers_group (lit ''const dealersData = [{name:}];'')
      = Some ([], lit ''[{name:}]'', [])\<close>
    by code_simp
  have 3: \<open>json_loads (clean_up ascii_only (lit ''[{name:}]'')) = Inl JSONDecodeError\<close>
    by code_simp
  from extract_dealers_failure [of \<open>lit ''<html></html>''\<close> ascii_only] 1
  have a: \<open>extract_dealers_data ascii_only (lit ''<html></html>'') = (JArr [], None)\<close>
    by blast
  from extract_dealers_failure [of \<open>lit ''const dealersData = [{name:}];''\<close> ascii_only
      \<open>[]\<close> \<open>lit ''[{name:}]''\<close> \<open>[]\<close> JSONDecodeError] 2 3
  have b: \<open>extract_dealers_data ascii_only (lit ''const dealersData = [{name:}];'')
     = (JArr [], Some JSONDecodeError)\<close>
    by blast
  from a b show ?thesis by (rule conjI)
qed

text \<open>
  The claim as stated has the error reported in both cases; for a document without the
  statement nothing is reported.
\<close>

theorem extract_dealers_silent_counterexample:
  \<open>re_search match_dealers_group (lit ''<html></html>'') = None \<and>
   snd (extract_dealers_data ascii_only (lit ''<html></html>'')) = None\<close>
  by code_simp

subsection \<open>Writing the dealers and reading them back\<close>

text \<open>An example of a record that is read back as it was written.\<close>

lemma dealers_round_trip_plain_example:
  \<open>extract_dealers_data ascii_only (fst (update_dealers_in_html (lit ''const dealersData = [];'')
     (JArr [JObj [(lit ''contact'', JStr (lit ''Tel 1''))]])))
   = (JArr [JObj [(lit ''contact'', JStr (lit ''Tel 1''))]], None)\<close>
  by code_simp

text \<open>
  C1. The claim asks that the records written by \<open>update_dealers_in_html\<close> are read back
  by \<open>extract_dealers_data\<close>. The code breaks it: with the contact \<open>Tel: 1\<close> the document
  is written without an error, and reading it back gives the empty list and a reported
  \<open>JSONDecodeError\<close>, because the key-quoting step also quotes \<open>Tel:\<close> inside the string.
\<close>

theorem dealers_round_trip_colon:
  \<open>(case update_dealers_in_html (lit ''const dealersData = [];'')
      (JArr [dealer_of \<lparr>form_name = lit ''A'', form_contact = lit ''Tel: 1'', form_rating = lit ''5'',
         form_regions = [lit ''X''], form_paddy_rows = [(lit ''Rice'', lit ''100'')]\<rparr>]) of
      (updated_html, reported) \<Rightarrow>
        reported = None \<and>
        extract_dealers_data ascii_only updated_html = (JArr [], Some JSONDecodeError))\<close>
  by code_simp

text \<open>
  A backslash is lost on the way out as well: \<open>re.sub\<close> reads the serialized records as a
  template, so the two characters \<^verbatim>\<open>\t\<close> of a contact come back as one tab.
\<close>

lemma dealers_round_trip_backslash:
  \<open>extract_dealers_data ascii_only (fst (update_dealers_in_html (lit ''const dealersData = [];'')
     (JArr [JObj [(lit ''contact'', JStr [97, 92, 116, 98])]])))
   = (JArr [JObj [(lit ''contact'', JStr [97, 9, 98])]], None)\<close>
  by code_simp

subsection \<open>The forms\<close>

lemma submit_add_validates:
  assumes "form_name f = [] \<or> form_contact f = [] \<or> form_rating f = [] \<or> form_regions f = []
           \<or> paddy_types (form_paddy_rows f) = []"
  shows "submit_add f s = (s, Error)"
  using assms by (auto simp: submit_add_def)

text \<open>
  C8. The claim asks that an add or edit submission with an empty required field leaves the
  list of dealers as it was and reports an error. The add form does so
  (\<open>submit_add_validates\<close>); the edit form checks nothing: a submission with an empty name
  replaces the record and reports success.
\<close>

theorem submit_edit_accepts_empty_name:
  \<open>submit_edit 0
     \<lparr>form_name = [], form_contact = lit ''1'', form_rating = lit ''5'',
      form_regions = [lit ''X''], form_paddy_rows = [(lit ''Rice'', lit ''100'')]\<rparr>
     \<lparr>st_dealers = [JObj [(lit ''name'', JStr (lit ''A''))]], st_changes_made = False,
      st_editing_dealer = Some 0\<rparr>
   = Inr (\<lparr>st_dealers = [JObj [(lit ''name'', JStr []), (lit ''contact'', JStr (lit ''1'')),
             (lit ''rating'', JStr (lit ''5'')), (lit ''regions'', JArr [JStr (lit ''X'')]),
             (lit ''paddyTypes'', JArr [JObj [(lit ''name'', JStr (lit ''Rice'')),
                (lit ''price'', JStr (lit ''100'')), (lit ''unit'', JStr (lit ''per quintal''))]])]],
           st_changes_made = True, st_editing_dealer = None\<rparr>, Success)\<close>
  by (simp add: submit_edit_def dealer_of_def paddy_types_def paddy_type_def lit_def)

end
